theory Spec2Isabelle
  imports Main
begin

section \<open>Python values\<close>

text \<open>
  A Python \<open>str\<close> is a sequence of Unicode code points. The priority categories of
  \<open>data.py\<close> are Cyrillic, so a string is a list of code points rather than of bytes.
  \<open>ascii\<close> turns an ASCII literal into such a string.
\<close>

type_synonym pystr = "nat list"

definition ascii :: "string \<Rightarrow> pystr" where
  "ascii s = map of_char s"

text \<open>
  A cell of a frame holds a string, an integer or the missing value \<open>nan\<close>. Frames are
  taken with object columns: a cell keeps the Python value it was built from, and two cells
  are the same key when they are equal values or both missing. A number cell stands for
  the number it holds, whatever type pandas stores it in: \<open>Num 5\<close> is the cell of \<open>5\<close> and
  of \<open>5.0\<close>. Fractions, booleans and \<open>None\<close> are outside the model, and so is every
  integer that a 64-bit float cannot hold: pandas stores a column of integers and \<open>nan\<close>
  as floats when it rebuilds a frame (\<open>pd.merge\<close>, \<open>apply\<close>), which keeps an integer of
  absolute value up to \<open>2 ^ 53\<close> and rounds beyond. The operations below carry cells
  unchanged, so they describe pandas on frames within that bound (\<open>exact_frame\<close>,
  \<open>exact_call\<close> below), and the statements about the cells of a result assume it.
\<close>

datatype cell = Str pystr | Num int | NaN

datatype error = KeyError pystr | ValueError | MergeError | TypeError

fun digits :: "nat \<Rightarrow> pystr" where
  "digits n = (if n < 10 then [48 + n] else digits (n div 10) @ [48 + n mod 10])"

declare digits.simps [simp del]

text \<open>\<open>str(value)\<close>: a string is itself, an integer prints in decimal, \<open>nan\<close> prints as "nan".\<close>

fun py_str :: "cell \<Rightarrow> pystr" where
  "py_str (Str s) = s"
| "py_str (Num i) = (if i < 0 then 45 # digits (nat (- i)) else digits (nat i))"
| "py_str NaN = ascii ''nan''"

text \<open>
  \<open>str.lower\<close> belongs to the Python runtime (its table is the Unicode database), so the
  model takes it as the parameter \<open>lower\<close> wherever the source calls it. \<open>str_lower\<close> is
  that function on the code points below U+0100 and on the Cyrillic block
  U+0400..U+045F, where lower-casing is one code point to one code point; it is the
  instance used when the model is run.
\<close>

definition lower_cp :: "nat \<Rightarrow> nat" where
  "lower_cp c =
     (if 65 \<le> c \<and> c \<le> 90 then c + 32
      else if 192 \<le> c \<and> c \<le> 222 \<and> c \<noteq> 215 then c + 32
      else if 1024 \<le> c \<and> c \<le> 1039 then c + 80
      else if 1040 \<le> c \<and> c \<le> 1071 then c + 32
      else c)"

definition str_lower :: "pystr \<Rightarrow> pystr" where
  "str_lower s = map lower_cp s"

text \<open>Python's \<open><\<close> on strings: lexicographic on code points.\<close>

fun str_less :: "pystr \<Rightarrow> pystr \<Rightarrow> bool" where
  "str_less [] [] = False"
| "str_less [] (y # ys) = True"
| "str_less (x # xs) [] = False"
| "str_less (x # xs) (y # ys) = (x < y \<or> (x = y \<and> str_less xs ys))"

text \<open>
  Python's \<open><\<close> on two cells: numbers compare as numbers, any comparison with \<open>nan\<close> on
  the numeric side is false, a string against a number raises \<open>TypeError\<close>.
\<close>

fun cell_less :: "cell \<Rightarrow> cell \<Rightarrow> error + bool" where
  "cell_less (Num a) (Num b) = Inr (a < b)"
| "cell_less (Num a) NaN = Inr False"
| "cell_less NaN (Num b) = Inr False"
| "cell_less NaN NaN = Inr False"
| "cell_less (Str a) (Str b) = Inr (str_less a b)"
| "cell_less (Str a) (Num b) = Inl TypeError"
| "cell_less (Str a) NaN = Inl TypeError"
| "cell_less (Num a) (Str b) = Inl TypeError"
| "cell_less NaN (Str b) = Inl TypeError"

section \<open>Frames and rows\<close>

text \<open>
  A \<open>DataFrame\<close> is its column labels and its rows, each row listing its cells in column
  order. The row index is not modelled: two frames are equal when they have the same
  columns and the same rows in the same order. A \<open>Series\<close> (one row handed to a function
  by \<open>apply\<close>) is the list of its labelled cells.
\<close>

record dataframe =
  columns :: "pystr list"
  rows :: "cell list list"

type_synonym series = "(pystr \<times> cell) list"

definition cell_at :: "pystr list \<Rightarrow> cell list \<Rightarrow> pystr \<Rightarrow> cell" where
  "cell_at cols r c = (case map_of (zip cols r) c of Some v \<Rightarrow> v | None \<Rightarrow> NaN)"

text \<open>\<open>row[label]\<close>: raises \<open>KeyError\<close> on a label the row does not have.\<close>

definition series_get :: "series \<Rightarrow> pystr \<Rightarrow> error + cell" where
  "series_get row label =
     (case map_of row label of None \<Rightarrow> Inl (KeyError label) | Some v \<Rightarrow> Inr v)"

text \<open>\<open>row[label] = v\<close>: overwrites the cell of an existing label, appends a new one.\<close>

definition series_set :: "series \<Rightarrow> pystr \<Rightarrow> cell \<Rightarrow> series" where
  "series_set row label v =
     (if label \<in> fst ` set row
      then map (\<lambda>(k, x). if k = label then (k, v) else (k, x)) row
      else row @ [(label, v)])"

text \<open>\<open>df[col]\<close>: the cells of one column, \<open>KeyError\<close> when the frame has no such column.\<close>

definition getitem_column :: "dataframe \<Rightarrow> pystr \<Rightarrow> error + cell list" where
  "getitem_column df col =
     (if col \<in> set (columns df)
      then Inr (map (\<lambda>r. cell_at (columns df) r col) (rows df))
      else Inl (KeyError col))"

text \<open>
  \<open>df[col] = values\<close>: replaces the column when the frame has it, otherwise appends it as
  the last column.
\<close>

definition set_column :: "dataframe \<Rightarrow> pystr \<Rightarrow> cell list \<Rightarrow> dataframe" where
  "set_column df col vs =
     (if col \<in> set (columns df)
      then \<lparr>columns = columns df,
            rows = map2 (\<lambda>r v. map (\<lambda>(k, x). if k = col then v else x) (zip (columns df) r))
                     (rows df) vs\<rparr>
      else \<lparr>columns = columns df @ [col],
            rows = map2 (\<lambda>r v. r @ [v]) (rows df) vs\<rparr>)"

text \<open>\<open>df.drop(columns=cs, errors='ignore')\<close>: removes the listed columns that exist.\<close>

definition drop_columns :: "dataframe \<Rightarrow> pystr list \<Rightarrow> dataframe" where
  "drop_columns df cs =
     \<lparr>columns = filter (\<lambda>c. c \<notin> set cs) (columns df),
      rows = map (\<lambda>r. map snd (filter (\<lambda>(c, v). c \<notin> set cs) (zip (columns df) r))) (rows df)\<rparr>"

text \<open>\<open>df[cs]\<close> with a list of labels: those columns in that order, \<open>KeyError\<close> on a missing one.\<close>

definition select_columns :: "dataframe \<Rightarrow> pystr list \<Rightarrow> error + dataframe" where
  "select_columns df cs =
     (case find (\<lambda>c. c \<notin> set (columns df)) cs of
        Some c \<Rightarrow> Inl (KeyError c)
      | None \<Rightarrow> Inr \<lparr>columns = cs,
                     rows = map (\<lambda>r. map (cell_at (columns df) r) cs) (rows df)\<rparr>)"

section \<open>The pandas operations the updater calls\<close>

definition priority_label :: pystr where
  "priority_label = ascii ''priority''"

definition priority_df2_label :: pystr where
  "priority_df2_label = ascii ''priority_df2''"

definition merge_label :: pystr where
  "merge_label = ascii ''_merge''"

definition df2_suffix :: pystr where
  "df2_suffix = ascii ''_df2''"

definition indicator_labels :: "pystr list" where
  "indicator_labels = [ascii ''_left_indicator'', ascii ''_right_indicator'', merge_label]"

text \<open>
  \<open>pd.merge(left, right, on=on, how='left', suffixes=('', '_df2'), indicator=True)\<close>.
  The key columns appear once, from the left frame. A column of the right frame that is
  not a key keeps its name unless the left frame has a column of that name, in which case
  it gets the suffix \<open>_df2\<close> (the left one gets the empty suffix). The last column is the
  indicator \<open>_merge\<close>. Each left row is followed through the right rows in their order:
  one output row per right row with equal key cells (\<open>both\<close>), or a single row padded with
  \<open>nan\<close> when there is none (\<open>left_only\<close>). Missing key cells match each other, as in pandas.
  pandas raises \<open>KeyError\<close> for a key column that a frame lacks, \<open>ValueError\<close> when a
  frame already has a column \<open>_merge\<close>, \<open>_left_indicator\<close> or \<open>_right_indicator\<close>, and
  \<open>MergeError\<close> when the suffix makes two right columns collide or makes a right column
  collide with a left column that is not suffixed. With object columns on both sides
  pandas has no mismatch of key types to refuse. Cells are carried by value: pandas turns
  a right column padded with \<open>nan\<close> into floats, which leaves every integer of absolute
  value up to \<open>2 ^ 53\<close> the number it was; beyond that bound it rounds.
\<close>

definition pd_merge :: "dataframe \<Rightarrow> dataframe \<Rightarrow> pystr list \<Rightarrow> error + dataframe" where
  "pd_merge left right on =
     (case find (\<lambda>k. k \<notin> set (columns left) \<or> k \<notin> set (columns right)) on of
        Some k \<Rightarrow> Inl (KeyError k)
      | None \<Rightarrow>
          if list_ex (\<lambda>i. i \<in> set (columns left) \<or> i \<in> set (columns right)) indicator_labels
          then Inl ValueError
          else
            let rest = filter (\<lambda>c. c \<notin> set on) (columns right);
                rlabels = map (\<lambda>c. if c \<in> set (columns left) then c @ df2_suffix else c) rest;
                key = (\<lambda>cols r. map (cell_at cols r) on);
                strip = (\<lambda>r. map snd (filter (\<lambda>(c, v). c \<notin> set on) (zip (columns right) r)))
            in if (distinct (columns right) \<and> \<not> distinct rlabels)
                  \<or> list_ex (\<lambda>c. c \<in> set (columns left) \<and> c \<notin> set rest) rlabels
               then Inl MergeError
               else Inr
                 \<lparr>columns = columns left @ rlabels @ [merge_label],
                  rows = concat (map (\<lambda>l.
                     let ms = filter (\<lambda>r. key (columns right) r = key (columns left) l)
                                (rows right)
                     in if ms = []
                        then [l @ replicate (length rlabels) NaN @ [Str (ascii ''left_only'')]]
                        else map (\<lambda>r. l @ strip r @ [Str (ascii ''both'')]) ms)
                     (rows left))\<rparr>)"

text \<open>
  \<open>df.apply(f, axis=1)\<close> with \<open>f\<close> returning a row: \<open>f\<close> runs on the rows in order, the first
  exception ends the call. The result has the frame's columns, followed by any label a row
  gained; a row without a label has \<open>nan\<close> there. pandas builds the result from the
  returned rows and infers the type of each column again, so a column of integers and
  \<open>nan\<close> comes back as floats: the cells are the same numbers within the bound of
  \<open>2 ^ 53\<close>, which is where this definition, carrying the cells as the function left
  them, is the operation.
\<close>

fun map_rows :: "('a \<Rightarrow> error + 'b) \<Rightarrow> 'a list \<Rightarrow> error + 'b list" where
  "map_rows f [] = Inr []"
| "map_rows f (x # xs) =
     (case f x of
        Inl e \<Rightarrow> Inl e
      | Inr y \<Rightarrow> (case map_rows f xs of Inl e \<Rightarrow> Inl e | Inr ys \<Rightarrow> Inr (y # ys)))"

definition frame_of_series :: "pystr list \<Rightarrow> series list \<Rightarrow> dataframe" where
  "frame_of_series cols ss =
     (let labels = cols @ filter (\<lambda>c. c \<notin> set cols) (remdups (concat (map (map fst) ss)))
      in \<lparr>columns = labels,
          rows = map (\<lambda>s. map (\<lambda>c. case map_of s c of Some v \<Rightarrow> v | None \<Rightarrow> NaN) labels) ss\<rparr>)"

definition apply_axis1 :: "(series \<Rightarrow> error + series) \<Rightarrow> dataframe \<Rightarrow> error + dataframe" where
  "apply_axis1 f df =
     (case map_rows f (map (zip (columns df)) (rows df)) of
        Inl e \<Rightarrow> Inl e
      | Inr ss \<Rightarrow> Inr (frame_of_series (columns df) ss))"

section \<open>The updater (\<open>data.py\<close>)\<close>

record updater =
  ip_col :: pystr
  computer_name_col :: pystr
  value_col :: pystr
  priority_map :: "pystr \<Rightarrow> int option"

text \<open>
  \<open>PRIORITY_MAP\<close>, the default of the constructor. The keys are, in order, the Cyrillic
  words of lines 9 to 13 of \<open>data.py\<close>, written as code points.
\<close>

definition PRIORITY_MAP :: "pystr \<Rightarrow> int option" where
  "PRIORITY_MAP = map_of
     [([1074, 1072, 1078, 1085, 1086], 5),
      ([1086, 1095, 1077, 1085, 1100, 32, 1074, 1072, 1078, 1085, 1086], 4),
      ([1089, 1088, 1077, 1076, 1085, 1077], 3),
      ([1085, 1077, 32, 1086, 1095, 1077, 1085, 1100], 2),
      ([1087, 1091, 1089, 1090, 1086], 1)]"

text \<open>\<open>get_priority\<close> (lines 58 to 61): \<open>priority_map.get(str(value).lower(), 0)\<close>.\<close>

definition get_priority :: "(pystr \<Rightarrow> pystr) \<Rightarrow> updater \<Rightarrow> cell \<Rightarrow> int" where
  "get_priority lower u value =
     (let value = lower (py_str value)
      in case priority_map u value of Some p \<Rightarrow> p | None \<Rightarrow> 0)"

text \<open>
  \<open>update_row\<close> (lines 77 to 84). The loop over \<open>df2.columns\<close> is \<open>update_cols\<close>: for every
  column outside the skip list it reads \<open>row[col + '_df2']\<close>, which raises \<open>KeyError\<close>
  when the merged row has no such label, and stores it under \<open>col\<close>.
\<close>

fun update_cols :: "updater \<Rightarrow> pystr list \<Rightarrow> series \<Rightarrow> error + series" where
  "update_cols u [] row = Inr row"
| "update_cols u (col # cols) row =
     (if col \<notin> set [ip_col u, computer_name_col u, priority_label]
      then (case series_get row (col @ df2_suffix) of
              Inl e \<Rightarrow> Inl e
            | Inr v \<Rightarrow> update_cols u cols (series_set row col v))
      else update_cols u cols row)"

definition update_row :: "updater \<Rightarrow> pystr list \<Rightarrow> series \<Rightarrow> error + series" where
  "update_row u df2_columns row =
     (case series_get row merge_label of
        Inl e \<Rightarrow> Inl e
      | Inr m \<Rightarrow>
          if m = Str (ascii ''both'') then
            (case series_get row priority_label of
               Inl e \<Rightarrow> Inl e
             | Inr p \<Rightarrow>
                 (case series_get row priority_df2_label of
                    Inl e \<Rightarrow> Inl e
                  | Inr p2 \<Rightarrow>
                      (case cell_less p p2 of
                         Inl e \<Rightarrow> Inl e
                       | Inr b \<Rightarrow> if b then update_cols u df2_columns row else Inr row)))
          else Inr row)"

text \<open>
  Lines 66 to 93, on the two frames as they are once the priority columns are in place:
  merge, row-wise update, removal of the helper columns, projection on the columns of
  \<open>df1\<close> in their order.
\<close>

definition merge_and_update :: "updater \<Rightarrow> dataframe \<Rightarrow> dataframe \<Rightarrow> error + dataframe" where
  "merge_and_update u df1 df2 =
     (case pd_merge df1 df2 [ip_col u, computer_name_col u] of
        Inl e \<Rightarrow> Inl e
      | Inr merged \<Rightarrow>
          (case apply_axis1 (update_row u (columns df2)) merged of
             Inl e \<Rightarrow> Inl e
           | Inr df1_updated \<Rightarrow>
               let df1_updated = drop_columns df1_updated
                                   [priority_label, priority_df2_label, merge_label];
                   existing_cols = filter (\<lambda>col. col \<in> set (columns df1_updated)) (columns df1)
               in select_columns df1_updated existing_cols))"

text \<open>
  The caller's frames are objects that the method changes in place (lines 63 and 64), so
  the method runs on a store: \<open>frames\<close> gives the frame at each address and \<open>next_id\<close> is
  the first address not yet in use. The arguments \<open>df1\<close> and \<open>df2\<close> are addresses, which
  may be the same one. The method returns an address, or the exception it raised, and the
  store it leaves.
\<close>

record store =
  frames :: "nat \<Rightarrow> dataframe"
  next_id :: nat

text \<open>\<open>df['priority'] = df[self.value_col].apply(get_priority)\<close>, on the object at \<open>a\<close>.\<close>

definition assign_priority ::
    "(pystr \<Rightarrow> pystr) \<Rightarrow> updater \<Rightarrow> nat \<Rightarrow> store \<Rightarrow> error + store" where
  "assign_priority lower u a h =
     (case getitem_column (frames h a) (value_col u) of
        Inl e \<Rightarrow> Inl e
      | Inr vs \<Rightarrow>
          Inr (h\<lparr>frames := (frames h)
                 (a := set_column (frames h a) priority_label
                         (map (\<lambda>v. Num (get_priority lower u v)) vs))\<rparr>))"

definition compare_and_update_dataframe ::
    "(pystr \<Rightarrow> pystr) \<Rightarrow> updater \<Rightarrow> nat \<Rightarrow> nat \<Rightarrow> store \<Rightarrow> (error + nat) \<times> store" where
  "compare_and_update_dataframe lower u df1 df2 h =
     (if \<not> list_all (\<lambda>col. col \<in> set (columns (frames h df1)) \<and> col \<in> set (columns (frames h df2)))
              [ip_col u, computer_name_col u, value_col u]
      then (Inr df1, h)
      else
        (case assign_priority lower u df1 h of
           Inl e \<Rightarrow> (Inl e, h)
         | Inr h1 \<Rightarrow>
             (case assign_priority lower u df2 h1 of
                Inl e \<Rightarrow> (Inl e, h1)
              | Inr h2 \<Rightarrow>
                  (case merge_and_update u (frames h2 df1) (frames h2 df2) of
                     Inl e \<Rightarrow> (Inl e, h2)
                   | Inr df1_updated \<Rightarrow>
                       (Inr (next_id h2),
                        h2\<lparr>frames := (frames h2)(next_id h2 := df1_updated),
                           next_id := Suc (next_id h2)\<rparr>)))))"

section \<open>Vocabulary of the statements\<close>

text \<open>
  The frames the statements range over. A frame is \<open>plain\<close> when its column labels are
  distinct, every row has one cell per column, and no label is one of the names the method
  and \<open>pd.merge\<close> use themselves: \<open>priority\<close>, \<open>_merge\<close>, \<open>_left_indicator\<close>,
  \<open>_right_indicator\<close>, or a label ending in \<open>_df2\<close>.
\<close>

definition endswith :: "pystr \<Rightarrow> pystr \<Rightarrow> bool" where
  "endswith s suf = (length suf \<le> length s \<and> drop (length s - length suf) s = suf)"

definition reserved_label :: "pystr \<Rightarrow> bool" where
  "reserved_label c =
     (c = priority_label \<or> c \<in> set indicator_labels \<or> endswith c df2_suffix)"

definition plain_frame :: "dataframe \<Rightarrow> bool" where
  "plain_frame df =
     (distinct (columns df)
      \<and> list_all (\<lambda>r. length r = length (columns df)) (rows df)
      \<and> list_all (\<lambda>c. \<not> reserved_label c) (columns df))"

text \<open>
  A call is \<open>plain\<close> when both frames are, the two key columns are different columns, and
  the check of line 53 passes.
\<close>

definition plain_call :: "updater \<Rightarrow> dataframe \<Rightarrow> dataframe \<Rightarrow> bool" where
  "plain_call u df1 df2 =
     (plain_frame df1 \<and> plain_frame df2 \<and> ip_col u \<noteq> computer_name_col u
      \<and> list_all (\<lambda>col. col \<in> set (columns df1) \<and> col \<in> set (columns df2))
           [ip_col u, computer_name_col u, value_col u])"

text \<open>The key of a row, its priority score, and the row a replacement produces.\<close>

definition key_of :: "updater \<Rightarrow> dataframe \<Rightarrow> cell list \<Rightarrow> cell list" where
  "key_of u df r = map (cell_at (columns df) r) [ip_col u, computer_name_col u]"

definition score :: "(pystr \<Rightarrow> pystr) \<Rightarrow> updater \<Rightarrow> dataframe \<Rightarrow> cell list \<Rightarrow> int" where
  "score lower u df r = get_priority lower u (cell_at (columns df) r (value_col u))"

definition replaced :: "updater \<Rightarrow> dataframe \<Rightarrow> dataframe \<Rightarrow> cell list \<Rightarrow> cell list \<Rightarrow> cell list" where
  "replaced u df1 df2 t s =
     map (\<lambda>c. if c \<in> set (columns df2) \<and> c \<noteq> ip_col u \<and> c \<noteq> computer_name_col u
              then cell_at (columns df2) s c else cell_at (columns df1) t c)
       (columns df1)"

text \<open>
  The rows a successful call returns: every target row, once per source row with the same
  key, in source order, each copy compared with that source row alone; a target row with
  no such source row appears once.
\<close>

definition per_match_rows ::
    "(pystr \<Rightarrow> pystr) \<Rightarrow> updater \<Rightarrow> dataframe \<Rightarrow> dataframe \<Rightarrow> cell list list" where
  "per_match_rows lower u df1 df2 =
     concat (map (\<lambda>t.
        let ms = filter (\<lambda>s. key_of u df2 s = key_of u df1 t) (rows df2)
        in if ms = [] then [t]
           else map (\<lambda>s. if score lower u df1 t < score lower u df2 s
                          then replaced u df1 df2 t s else t) ms)
       (rows df1))"

text \<open>The columns of the source that the target lacks, and whether some match is strict.\<close>

definition source_only :: "updater \<Rightarrow> dataframe \<Rightarrow> dataframe \<Rightarrow> pystr list" where
  "source_only u df1 df2 =
     filter (\<lambda>c. c \<noteq> ip_col u \<and> c \<noteq> computer_name_col u \<and> c \<notin> set (columns df1)) (columns df2)"

definition strict_match ::
    "(pystr \<Rightarrow> pystr) \<Rightarrow> updater \<Rightarrow> dataframe \<Rightarrow> dataframe \<Rightarrow> bool" where
  "strict_match lower u df1 df2 =
     list_ex (\<lambda>t. list_ex (\<lambda>s. key_of u df2 s = key_of u df1 t
                              \<and> score lower u df1 t < score lower u df2 s) (rows df2))
       (rows df1)"

text \<open>
  The integers a 64-bit float holds exactly, from \<open>- 2 ^ 53\<close> to \<open>2 ^ 53\<close>. A frame is
  \<open>exact\<close> when every number cell is such an integer, and a call is exact when both
  frames are and every record of either frame has such a priority score. On an exact call
  the floats pandas puts in place of integers in a merged or rebuilt frame are the same
  numbers, and line 79 compares the scores themselves.
\<close>

definition float_exact :: "int \<Rightarrow> bool" where
  "float_exact n = (- 9007199254740992 \<le> n \<and> n \<le> 9007199254740992)"

fun exact_cell :: "cell \<Rightarrow> bool" where
  "exact_cell (Num n) = float_exact n"
| "exact_cell (Str s) = True"
| "exact_cell NaN = True"

definition exact_frame :: "dataframe \<Rightarrow> bool" where
  "exact_frame df = list_all (list_all exact_cell) (rows df)"

definition exact_call ::
    "(pystr \<Rightarrow> pystr) \<Rightarrow> updater \<Rightarrow> dataframe \<Rightarrow> dataframe \<Rightarrow> bool" where
  "exact_call lower u df1 df2 =
     (exact_frame df1 \<and> exact_frame df2
      \<and> list_all (\<lambda>r. float_exact (score lower u df1 r)) (rows df1)
      \<and> list_all (\<lambda>r. float_exact (score lower u df2 r)) (rows df2))"

section \<open>Auxiliary notions of the proofs\<close>

text \<open>A row whose labels are \<open>M\<close> and whose cell under \<open>c\<close> is \<open>g c\<close>.\<close>

definition tab :: "pystr list \<Rightarrow> (pystr \<Rightarrow> cell) \<Rightarrow> series" where
  "tab M g = map (\<lambda>c. (c, g c)) M"

text \<open>The columns the loop of \<open>update_row\<close> leaves alone (line 82).\<close>

definition skip :: "updater \<Rightarrow> pystr set" where
  "skip u = {ip_col u, computer_name_col u, priority_label}"

text \<open>A frame once line 63 or 64 has given it the column \<open>priority\<close>.\<close>

definition scored :: "(pystr \<Rightarrow> pystr) \<Rightarrow> updater \<Rightarrow> dataframe \<Rightarrow> dataframe" where
  "scored lower u df =
     \<lparr>columns = columns df @ [priority_label],
      rows = map (\<lambda>r. r @ [Num (score lower u df r)]) (rows df)\<rparr>"

text \<open>
  The columns of the merged frame of two scored frames: the columns of the first, then the
  columns of the second that are not keys, renamed where the first has them too, then the
  indicator.
\<close>

definition rest_columns :: "updater \<Rightarrow> dataframe \<Rightarrow> pystr list" where
  "rest_columns u df2 =
     filter (\<lambda>c. c \<notin> set [ip_col u, computer_name_col u]) (columns df2 @ [priority_label])"

definition rename :: "dataframe \<Rightarrow> pystr \<Rightarrow> pystr" where
  "rename df1 c = (if c \<in> set (columns df1 @ [priority_label]) then c @ df2_suffix else c)"

definition merged_columns :: "updater \<Rightarrow> dataframe \<Rightarrow> dataframe \<Rightarrow> pystr list" where
  "merged_columns u df1 df2 =
     (columns df1 @ [priority_label]) @ map (rename df1) (rest_columns u df2) @ [merge_label]"

text \<open>
  The merged row of a target record without a match, and of a target record \<open>t\<close> with the
  source record \<open>s\<close>.
\<close>

definition merged_left ::
    "(pystr \<Rightarrow> pystr) \<Rightarrow> updater \<Rightarrow> dataframe \<Rightarrow> dataframe \<Rightarrow> cell list \<Rightarrow> cell list" where
  "merged_left lower u df1 df2 t =
     (t @ [Num (score lower u df1 t)]) @ replicate (length (rest_columns u df2)) NaN
       @ [Str (ascii ''left_only'')]"

definition merged_both ::
    "(pystr \<Rightarrow> pystr) \<Rightarrow> updater \<Rightarrow> dataframe \<Rightarrow> dataframe \<Rightarrow> cell list \<Rightarrow> cell list \<Rightarrow> cell list" where
  "merged_both lower u df1 df2 t s =
     (t @ [Num (score lower u df1 t)])
       @ map (cell_at (columns df2 @ [priority_label]) (s @ [Num (score lower u df2 s)]))
           (rest_columns u df2)
       @ [Str (ascii ''both'')]"

text \<open>The cell under \<open>x\<close> of the merged row of \<open>t\<close> and \<open>s\<close> once the loop has run over it.\<close>

definition updated_cell ::
    "(pystr \<Rightarrow> pystr) \<Rightarrow> updater \<Rightarrow> dataframe \<Rightarrow> dataframe \<Rightarrow> cell list \<Rightarrow> cell list \<Rightarrow> pystr \<Rightarrow> cell" where
  "updated_cell lower u df1 df2 t s x =
     (if x \<in> set (columns df2 @ [priority_label]) \<and> x \<notin> skip u
      then cell_at (merged_columns u df1 df2) (merged_both lower u df1 df2 t s) (x @ df2_suffix)
      else cell_at (merged_columns u df1 df2) (merged_both lower u df1 df2 t s) x)"

text \<open>
  The merged rows in their order, each named by the target record and the source record
  (if any) it comes from; the merged row of such a pair, whether the pair is a strict
  match, the cells of its row after \<open>update_row\<close>, and its record in the result.
\<close>

definition match_pairs ::
    "updater \<Rightarrow> dataframe \<Rightarrow> dataframe \<Rightarrow> (cell list \<times> cell list option) list" where
  "match_pairs u df1 df2 =
     concat (map (\<lambda>t.
        if filter (\<lambda>s. key_of u df2 s = key_of u df1 t) (rows df2) = [] then [(t, None)]
        else map (\<lambda>s. (t, Some s)) (filter (\<lambda>s. key_of u df2 s = key_of u df1 t) (rows df2)))
       (rows df1))"

definition merged_row ::
    "(pystr \<Rightarrow> pystr) \<Rightarrow> updater \<Rightarrow> dataframe \<Rightarrow> dataframe
      \<Rightarrow> cell list \<times> cell list option \<Rightarrow> cell list" where
  "merged_row lower u df1 df2 p =
     (case snd p of
        None \<Rightarrow> merged_left lower u df1 df2 (fst p)
      | Some s \<Rightarrow> merged_both lower u df1 df2 (fst p) s)"

definition strict_pair ::
    "(pystr \<Rightarrow> pystr) \<Rightarrow> updater \<Rightarrow> dataframe \<Rightarrow> dataframe
      \<Rightarrow> cell list \<times> cell list option \<Rightarrow> bool" where
  "strict_pair lower u df1 df2 p =
     (case snd p of
        None \<Rightarrow> False
      | Some s \<Rightarrow> score lower u df1 (fst p) < score lower u df2 s)"

definition result_cell ::
    "(pystr \<Rightarrow> pystr) \<Rightarrow> updater \<Rightarrow> dataframe \<Rightarrow> dataframe
      \<Rightarrow> cell list \<times> cell list option \<Rightarrow> pystr \<Rightarrow> cell" where
  "result_cell lower u df1 df2 p =
     (case snd p of
        None \<Rightarrow> cell_at (merged_columns u df1 df2) (merged_left lower u df1 df2 (fst p))
      | Some s \<Rightarrow>
          if score lower u df1 (fst p) < score lower u df2 s
          then updated_cell lower u df1 df2 (fst p) s
          else cell_at (merged_columns u df1 df2) (merged_both lower u df1 df2 (fst p) s))"

definition final_row ::
    "(pystr \<Rightarrow> pystr) \<Rightarrow> updater \<Rightarrow> dataframe \<Rightarrow> dataframe
      \<Rightarrow> cell list \<times> cell list option \<Rightarrow> cell list" where
  "final_row lower u df1 df2 p =
     (case snd p of
        None \<Rightarrow> fst p
      | Some s \<Rightarrow>
          if score lower u df1 (fst p) < score lower u df2 s
          then replaced u df1 df2 (fst p) s else fst p)"

text \<open>The store once lines 63 and 64 have run.\<close>

definition after_scoring :: "(pystr \<Rightarrow> pystr) \<Rightarrow> updater \<Rightarrow> nat \<Rightarrow> nat \<Rightarrow> store \<Rightarrow> store" where
  "after_scoring lower u a1 a2 h =
     h\<lparr>frames := (frames h)(a1 := scored lower u (frames h a1),
                             a2 := scored lower u (frames h a2))\<rparr>"

section \<open>The specification's wording\<close>


text \<open>
  The priority score as the specification words it, not as the source computes it: the
  raw string is lower-cased and trimmed of the ASCII whitespace at both ends before it is
  looked up in the ranking.
\<close>

definition trim :: "pystr \<Rightarrow> pystr" where
  "trim s = rev (dropWhile (\<lambda>c. c \<in> {9, 10, 11, 12, 13, 32})
                  (rev (dropWhile (\<lambda>c. c \<in> {9, 10, 11, 12, 13, 32}) s)))"

definition trimmed_priority :: "(pystr \<Rightarrow> pystr) \<Rightarrow> updater \<Rightarrow> cell \<Rightarrow> int" where
  "trimmed_priority lower u value =
     (case priority_map u (trim (lower (py_str value))) of Some p \<Rightarrow> p | None \<Rightarrow> 0)"

section \<open>Example data\<close>

text \<open>
  The categories of \<open>PRIORITY_MAP\<close> as code points, an updater with the default ranking
  and a few small frames. \<open>store_of a b\<close> is a store holding \<open>a\<close> at address 0 and \<open>b\<close> at
  address 1.
\<close>

definition word_vazhno :: pystr where
  "word_vazhno = [1074, 1072, 1078, 1085, 1086]"

definition word_ochen_vazhno :: pystr where
  "word_ochen_vazhno = [1086, 1095, 1077, 1085, 1100, 32, 1074, 1072, 1078, 1085, 1086]"

definition word_sredne :: pystr where
  "word_sredne = [1089, 1088, 1077, 1076, 1085, 1077]"

definition word_ne_ochen :: pystr where
  "word_ne_ochen = [1085, 1077, 32, 1086, 1095, 1077, 1085, 1100]"

definition word_pusto :: pystr where
  "word_pusto = [1087, 1091, 1089, 1090, 1086]"

definition example_updater :: updater where
  "example_updater = \<lparr>ip_col = ascii ''ip'', computer_name_col = ascii ''name'',
     value_col = ascii ''value'', priority_map = PRIORITY_MAP\<rparr>"

definition example_target :: dataframe where
  "example_target = \<lparr>columns = [ascii ''ip'', ascii ''name'', ascii ''value'', ascii ''x''],
     rows = [[Str (ascii ''10.0.0.1''), Str (ascii ''PC-1''), Str word_pusto, Str (ascii ''a'')]]\<rparr>"

definition example_no_value :: dataframe where
  "example_no_value = \<lparr>columns = [ascii ''ip'', ascii ''name'', ascii ''x''],
     rows = [[Str (ascii ''10.0.0.1''), Str (ascii ''PC-1''), Str (ascii ''b'')]]\<rparr>"

definition empty_frame :: dataframe where
  "empty_frame = \<lparr>columns = [], rows = []\<rparr>"

definition store_of :: "dataframe \<Rightarrow> dataframe \<Rightarrow> store" where
  "store_of a b = \<lparr>frames = (\<lambda>_. empty_frame)(0 := a, 1 := b), next_id = 2\<rparr>"

definition example_source_one :: dataframe where
  "example_source_one = \<lparr>columns = [ascii ''ip'', ascii ''name'', ascii ''value'', ascii ''x''],
     rows = [[Str (ascii ''10.0.0.1''), Str (ascii ''PC-1''), Str word_ochen_vazhno, Str (ascii ''b'')]]\<rparr>"

definition example_source_two :: dataframe where
  "example_source_two = \<lparr>columns = [ascii ''ip'', ascii ''name'', ascii ''value'', ascii ''x''],
     rows = [[Str (ascii ''10.0.0.1''), Str (ascii ''PC-1''), Str word_vazhno, Str (ascii ''b'')],
             [Str (ascii ''10.0.0.1''), Str (ascii ''PC-1''), Str word_ochen_vazhno, Str (ascii ''c'')]]\<rparr>"

definition example_source_extra :: dataframe where
  "example_source_extra = \<lparr>columns = [ascii ''ip'', ascii ''name'', ascii ''value'', ascii ''y''],
     rows = [[Str (ascii ''10.0.0.1''), Str (ascii ''PC-1''), Str word_vazhno, Str (ascii ''b'')]]\<rparr>"

definition example_source_other :: dataframe where
  "example_source_other = \<lparr>columns = [ascii ''ip'', ascii ''name'', ascii ''value'', ascii ''x''],
     rows = [[Str (ascii ''10.0.0.9''), Str (ascii ''PC-9''), Str word_vazhno, Str (ascii ''z'')]]\<rparr>"

definition example_target_pair :: dataframe where
  "example_target_pair = \<lparr>columns = [ascii ''ip'', ascii ''name'', ascii ''value'', ascii ''x''],
     rows = [[Str (ascii ''10.0.0.2''), Str (ascii ''PC-2''), Str word_sredne, Str (ascii ''c'')],
             [Str (ascii ''10.0.0.1''), Str (ascii ''PC-1''), Str word_pusto, Str (ascii ''a'')]]\<rparr>"

definition example_duplicates :: dataframe where
  "example_duplicates = \<lparr>columns = [ascii ''ip'', ascii ''name'', ascii ''value'', ascii ''x''],
     rows = [[Str (ascii ''10.0.0.1''), Str (ascii ''PC-1''), Str word_pusto, Str (ascii ''a'')],
             [Str (ascii ''10.0.0.1''), Str (ascii ''PC-1''), Str word_vazhno, Str (ascii ''b'')]]\<rparr>"

section \<open>Lemmas\<close>

subsection \<open>Rows as labelled cells\<close>

lemma cell_at_nth:
  "distinct cols \<Longrightarrow> length r = length cols \<Longrightarrow> i < length cols \<Longrightarrow> cell_at cols r (cols ! i) = r ! i"
  by (simp add: cell_at_def map_of_zip_nth)

lemma zip_tab:
  assumes "distinct cols" "length r = length cols"
  shows "zip cols r = tab cols (cell_at cols r)"
  unfolding tab_def
  by (rule nth_equalityI) (use assms in \<open>simp_all add: cell_at_nth\<close>)

lemma map_of_tab: "map_of (tab M g) c = (if c \<in> set M then Some (g c) else None)"
  unfolding tab_def by (induction M) auto

lemma fst_tab [simp]: "map fst (tab M g) = M"
  unfolding tab_def by (simp add: comp_def)

lemma snd_tab [simp]: "map snd (tab M g) = map g M"
  unfolding tab_def by (simp add: comp_def)

lemma series_get_tab:
  "series_get (tab M g) c = (if c \<in> set M then Inr (g c) else Inl (KeyError c))"
  by (simp add: series_get_def map_of_tab)

lemma series_set_tab:
  "c \<in> set M \<Longrightarrow> series_set (tab M g) c v = tab M (g(c := v))"
  unfolding series_set_def tab_def by (auto simp: image_iff)

lemma cell_at_map:
  "c \<in> set M \<Longrightarrow> cell_at M (map g M) c = g c"
  unfolding cell_at_def by (induction M) auto

lemma cell_at_notin:
  "c \<notin> set cols \<Longrightarrow> cell_at cols r c = NaN"
  unfolding cell_at_def
  by (auto split: option.splits dest!: map_of_SomeD set_zip_leftD)

lemma cell_at_append:
  "length xs = length as \<Longrightarrow>
   cell_at (xs @ ys) (as @ bs) c = (if c \<in> set xs then cell_at xs as c else cell_at ys bs c)"
  unfolding cell_at_def
  by (auto simp: map_of_append map_add_def split: option.splits dest!: map_of_SomeD set_zip_leftD)

lemma update_cols_tab:
  assumes "\<forall>c\<in>set cols. c \<notin> skip u \<longrightarrow> c \<in> set M"
    and "\<forall>c\<in>set cols. \<forall>c'\<in>set cols. c @ df2_suffix \<noteq> c'"
  shows "update_cols u cols (tab M g) =
     (case find (\<lambda>c. c \<notin> skip u \<and> c @ df2_suffix \<notin> set M) cols of
        Some c \<Rightarrow> Inl (KeyError (c @ df2_suffix))
      | None \<Rightarrow> Inr (tab M (\<lambda>x. if x \<in> set cols \<and> x \<notin> skip u then g (x @ df2_suffix) else g x)))"
  using assms
proof (induction cols arbitrary: g)
  case Nil
  then show ?case by simp
next
  case (Cons col cols)
  have ih: "update_cols u cols (tab M g') =
     (case find (\<lambda>c. c \<notin> skip u \<and> c @ df2_suffix \<notin> set M) cols of
        Some c \<Rightarrow> Inl (KeyError (c @ df2_suffix))
      | None \<Rightarrow> Inr (tab M (\<lambda>x. if x \<in> set cols \<and> x \<notin> skip u then g' (x @ df2_suffix) else g' x)))" for g'
    using Cons.IH [of g'] Cons.prems by simp
  let ?P = "\<lambda>c. c \<notin> skip u \<and> c @ df2_suffix \<notin> set M"
  show ?case
  proof (cases "col \<in> skip u")
    case True
    then have step: "update_cols u (col # cols) (tab M g) = update_cols u cols (tab M g)"
      by (simp add: skip_def)
    have fnd: "find ?P (col # cols) = find ?P cols"
      using True by simp
    have feq: "(\<lambda>x. if x \<in> set (col # cols) \<and> x \<notin> skip u then g (x @ df2_suffix) else g x)
        = (\<lambda>x. if x \<in> set cols \<and> x \<notin> skip u then g (x @ df2_suffix) else g x)"
      using True by auto
    show ?thesis by (simp only: step fnd feq ih)
  next
    case False
    then have inM: "col \<in> set M" using Cons.prems(1) by simp
    show ?thesis
    proof (cases "col @ df2_suffix \<in> set M")
      case no: False
      have step: "update_cols u (col # cols) (tab M g) = Inl (KeyError (col @ df2_suffix))"
        using False no by (simp add: skip_def series_get_tab)
      have fnd: "find ?P (col # cols) = Some col"
        using False no by simp
      show ?thesis by (simp only: step fnd option.case)
    next
      case yes: True
      let ?g' = "g(col := g (col @ df2_suffix))"
      have step: "update_cols u (col # cols) (tab M g) = update_cols u cols (tab M ?g')"
        using False yes inM by (simp add: skip_def series_get_tab series_set_tab)
      have fnd: "find ?P (col # cols) = find ?P cols"
        using yes by simp
      have feq: "(\<lambda>x. if x \<in> set cols \<and> x \<notin> skip u then ?g' (x @ df2_suffix) else ?g' x)
          = (\<lambda>x. if x \<in> set (col # cols) \<and> x \<notin> skip u then g (x @ df2_suffix) else g x)"
      proof
        fix x
        have "x @ df2_suffix \<noteq> col" if "x \<in> set cols"
          using Cons.prems(2) that by auto
        then show "(if x \<in> set cols \<and> x \<notin> skip u then ?g' (x @ df2_suffix) else ?g' x)
          = (if x \<in> set (col # cols) \<and> x \<notin> skip u then g (x @ df2_suffix) else g x)"
          using False by auto
      qed
      show ?thesis by (simp only: step fnd ih feq)
    qed
  qed
qed

subsection \<open>Labels\<close>

lemma endswith_append [simp]: "endswith (x @ suf) suf"
  by (simp add: endswith_def)

lemma priority_df2_label_eq: "priority_df2_label = priority_label @ df2_suffix"
  by (simp add: priority_df2_label_def priority_label_def df2_suffix_def ascii_def)

lemma label_facts:
  "priority_label \<noteq> merge_label"
  "\<not> endswith priority_label df2_suffix"
  "\<not> endswith merge_label df2_suffix"
  "merge_label \<in> set indicator_labels"
  by (simp_all add: priority_label_def merge_label_def df2_suffix_def indicator_labels_def
      ascii_def endswith_def)

lemma not_endswithD: "\<not> endswith c df2_suffix \<Longrightarrow> c \<noteq> x @ df2_suffix"
  by auto

lemma plain_frameD:
  assumes "plain_frame df"
  shows "distinct (columns df)"
    and "r \<in> set (rows df) \<Longrightarrow> length r = length (columns df)"
    and "priority_label \<notin> set (columns df)"
    and "merge_label \<notin> set (columns df)"
    and "c \<in> set (columns df) \<Longrightarrow> c \<notin> set indicator_labels"
    and "c \<in> set (columns df) \<Longrightarrow> c \<noteq> x @ df2_suffix"
  using assms label_facts(4)
  by (auto simp: plain_frame_def list_all_iff reserved_label_def)

lemma plain_callD:
  assumes "plain_call u df1 df2"
  shows "plain_frame df1" "plain_frame df2" "ip_col u \<noteq> computer_name_col u"
    "ip_col u \<in> set (columns df1)" "ip_col u \<in> set (columns df2)"
    "computer_name_col u \<in> set (columns df1)" "computer_name_col u \<in> set (columns df2)"
    "value_col u \<in> set (columns df1)" "value_col u \<in> set (columns df2)"
  using assms by (auto simp: plain_call_def)

subsection \<open>Scored frames\<close>

lemma map2_map_same: "map2 F xs (map h xs) = map (\<lambda>x. F x (h x)) xs"
  by (induction xs) auto

lemma set_column_scored:
  assumes "priority_label \<notin> set (columns df)"
  shows "set_column df priority_label
           (map (\<lambda>v. Num (get_priority lower u v))
              (map (\<lambda>r. cell_at (columns df) r (value_col u)) (rows df)))
         = scored lower u df"
  using assms by (simp add: set_column_def scored_def score_def map2_map_same comp_def)

lemma cell_at_scored:
  assumes "length r = length cols" "c \<in> set cols"
  shows "cell_at (cols @ [priority_label]) (r @ [p]) c = cell_at cols r c"
  using assms by (simp add: cell_at_append)

lemma replace_last:
  assumes "length r = length cols" "P \<notin> set cols"
  shows "map (\<lambda>(k, x). if k = P then v else x) (zip (cols @ [P]) (r @ [p])) = r @ [v]"
proof -
  have "map (\<lambda>(k, x). if k = P then v else x) (zip cols r) = r"
    using assms
  proof (induction cols arbitrary: r)
    case Nil then show ?case by simp
  next
    case (Cons a cols) then show ?case by (cases r) auto
  qed
  then show ?thesis using assms by simp
qed

lemma map2_map_map: "map2 F (map a xs) (map b xs) = map (\<lambda>x. F (a x) (b x)) xs"
  by (induction xs) auto

lemma set_column_scored_again:
  assumes "plain_frame df" "value_col u \<in> set (columns df)"
  shows "set_column (scored lower u df) priority_label
           (map (\<lambda>v. Num (get_priority lower u v))
              (map (\<lambda>r. cell_at (columns (scored lower u df)) r (value_col u))
                 (rows (scored lower u df))))
         = scored lower u df"
proof -
  have len: "\<And>r. r \<in> set (rows df) \<Longrightarrow> length r = length (columns df)"
    and nP: "priority_label \<notin> set (columns df)"
    using plain_frameD [OF assms(1)] by auto
  let ?C = "columns df"
  let ?a = "\<lambda>r. r @ [Num (score lower u df r)]"
  let ?b = "\<lambda>r. Num (get_priority lower u (cell_at (?C @ [priority_label]) (?a r) (value_col u)))"
  let ?F = "\<lambda>r v. map (\<lambda>(k, x). if k = priority_label then v else x) (zip (?C @ [priority_label]) r)"
  have row: "?F (?a r) (?b r) = ?a r" if "r \<in> set (rows df)" for r
  proof -
    have "?b r = Num (score lower u df r)"
      using len [OF that] assms(2) by (simp add: cell_at_scored score_def)
    then show ?thesis
      using replace_last [OF len [OF that] nP] by simp
  qed
  have "map2 ?F (map ?a (rows df)) (map ?b (rows df)) = map ?a (rows df)"
    unfolding map2_map_map using row by (simp cong: map_cong)
  then show ?thesis
    by (simp add: set_column_def scored_def comp_def)
qed

subsection \<open>The merged columns\<close>

lemma rest_columns_eq:
  assumes "plain_call u df1 df2"
  shows "rest_columns u df2 =
    filter (\<lambda>c. c \<noteq> ip_col u \<and> c \<noteq> computer_name_col u) (columns df2) @ [priority_label]"
  using plain_callD [OF assms] plain_frameD(3) [of df1]
  by (auto simp: rest_columns_def)

lemma suffixed_notin:
  assumes "plain_call u df1 df2"
  shows "x @ df2_suffix \<notin> set (columns df1)"
    and "x @ df2_suffix \<notin> set (columns df2)"
    and "x @ df2_suffix \<noteq> priority_label"
    and "x @ df2_suffix \<noteq> merge_label"
    and "priority_label \<noteq> x @ df2_suffix"
    and "merge_label \<noteq> x @ df2_suffix"
proof -
  note pc = plain_callD [OF assms]
  show "x @ df2_suffix \<notin> set (columns df1)"
    using plain_frameD(6) [OF pc(1), of "x @ df2_suffix" x] by blast
  show "x @ df2_suffix \<notin> set (columns df2)"
    using plain_frameD(6) [OF pc(2), of "x @ df2_suffix" x] by blast
  show a: "x @ df2_suffix \<noteq> priority_label"
    using label_facts(2) endswith_append [of x df2_suffix] by metis
  show b: "x @ df2_suffix \<noteq> merge_label"
    using label_facts(3) endswith_append [of x df2_suffix] by metis
  show "priority_label \<noteq> x @ df2_suffix" using a by simp
  show "merge_label \<noteq> x @ df2_suffix" using b by simp
qed

lemma rest_columns_subset:
  "c \<in> set (rest_columns u df2) \<Longrightarrow> c \<in> set (columns df2) \<or> c = priority_label"
  by (auto simp: rest_columns_def split: if_splits)

lemma rename_inj:
  assumes pc: "plain_call u df1 df2"
    and a: "a \<in> set (rest_columns u df2)" and b: "b \<in> set (rest_columns u df2)"
    and eq: "rename df1 a = rename df1 b"
  shows "a = b"
proof -
  have na: "a \<noteq> x @ df2_suffix" for x
    using rest_columns_subset [OF a] suffixed_notin(2,5) [OF pc, of x] by auto
  have nb: "b \<noteq> x @ df2_suffix" for x
    using rest_columns_subset [OF b] suffixed_notin(2,5) [OF pc, of x] by auto
  show ?thesis
    using eq na [of b] nb [of a] by (simp add: rename_def split: if_splits)
qed

lemma rename_fresh:
  assumes pc: "plain_call u df1 df2" and c: "c \<in> set (rest_columns u df2)"
  shows "rename df1 c \<notin> set (columns df1)" "rename df1 c \<noteq> priority_label"
    "rename df1 c \<noteq> merge_label"
proof -
  note s = suffixed_notin [OF pc]
  have m: "c \<noteq> merge_label"
    using rest_columns_subset [OF c] plain_frameD(4) [OF plain_callD(2) [OF pc]] label_facts(1)
    by auto
  show "rename df1 c \<notin> set (columns df1)"
    using s(1) [of c] by (simp add: rename_def)
  show "rename df1 c \<noteq> priority_label"
    using s(3) [of c] by (simp add: rename_def)
  show "rename df1 c \<noteq> merge_label"
    using s(4) [of c] m by (simp add: rename_def)
qed

lemma distinct_merged_columns:
  assumes pc: "plain_call u df1 df2"
  shows "distinct (merged_columns u df1 df2)"
proof -
  note c = plain_callD [OF pc]
  note p1 = plain_frameD [OF c(1)]
  note p2 = plain_frameD [OF c(2)]
  have d_rest: "distinct (rest_columns u df2)"
    using p2(1,3) by (simp add: rest_columns_def)
  have "inj_on (rename df1) (set (rest_columns u df2))"
    by (rule inj_onI) (rule rename_inj [OF pc])
  then have d_rl: "distinct (map (rename df1) (rest_columns u df2))"
    using d_rest by (simp add: distinct_map)
  have d1: "distinct (columns df1 @ [priority_label])"
    using p1(1,3) by simp
  have m: "merge_label \<notin> set (columns df1 @ [priority_label])"
    using p1(4) label_facts(1) by auto
  have m2: "merge_label \<notin> set (map (rename df1) (rest_columns u df2))"
    using rename_fresh(3) [OF pc] by (metis (no_types) imageE list.set_map)
  have disj: "set (columns df1 @ [priority_label]) \<inter> set (map (rename df1) (rest_columns u df2)) = {}"
  proof (rule ccontr)
    assume "\<not> ?thesis"
    then obtain x where x1: "x \<in> set (columns df1 @ [priority_label])"
      and x2: "x \<in> set (map (rename df1) (rest_columns u df2))" by blast
    from x2 obtain c where cc: "c \<in> set (rest_columns u df2)" and xc: "x = rename df1 c"
      by (auto simp: image_iff)
    from x1 rename_fresh(1,2) [OF pc cc] xc show False by simp
  qed
  show ?thesis
    unfolding merged_columns_def distinct_append
    using d1 d_rl m m2 disj by (simp add: Int_Un_distrib)
qed

lemma filter_tab: "filter (\<lambda>(c, v). p c) (tab M g) = tab (filter p M) g"
  unfolding tab_def by (induction M) auto

lemma key_of_scored:
  assumes "plain_frame df" "r \<in> set (rows df)"
    "ip_col u \<in> set (columns df)" "computer_name_col u \<in> set (columns df)"
  shows "map (cell_at (columns df @ [priority_label]) (r @ [p])) [ip_col u, computer_name_col u]
         = key_of u df r"
  using assms plain_frameD(2) [OF assms(1,2)]
  by (simp add: key_of_def cell_at_scored)

lemma strip_scored:
  assumes "plain_frame df2" "s \<in> set (rows df2)"
  shows "map snd (filter (\<lambda>(c, v). c \<notin> set [ip_col u, computer_name_col u])
            (zip (columns df2 @ [priority_label]) (s @ [p])))
         = map (cell_at (columns df2 @ [priority_label]) (s @ [p])) (rest_columns u df2)"
proof -
  have "distinct (columns df2 @ [priority_label])"
    using plain_frameD(1,3) [OF assms(1)] by simp
  moreover have "length (s @ [p]) = length (columns df2 @ [priority_label])"
    using plain_frameD(2) [OF assms] by simp
  ultimately have "zip (columns df2 @ [priority_label]) (s @ [p])
      = tab (columns df2 @ [priority_label]) (cell_at (columns df2 @ [priority_label]) (s @ [p]))"
    by (rule zip_tab)
  then show ?thesis
    by (simp only: filter_tab snd_tab rest_columns_def)
qed

lemma pd_merge_ok:
  assumes "find (\<lambda>k. k \<notin> set (columns left) \<or> k \<notin> set (columns right)) on = None"
    and "\<not> list_ex (\<lambda>i. i \<in> set (columns left) \<or> i \<in> set (columns right)) indicator_labels"
    and "map (\<lambda>c. if c \<in> set (columns left) then c @ df2_suffix else c)
           (filter (\<lambda>c. c \<notin> set on) (columns right)) = rl"
    and "distinct rl"
    and "\<not> list_ex (\<lambda>c. c \<in> set (columns left)
                         \<and> c \<notin> set (filter (\<lambda>c. c \<notin> set on) (columns right))) rl"
  shows "pd_merge left right on =
     Inr \<lparr>columns = columns left @ rl @ [merge_label],
          rows = concat (map (\<lambda>l.
             if filter (\<lambda>r. map (cell_at (columns right) r) on = map (cell_at (columns left) l) on)
                  (rows right) = []
             then [l @ replicate (length rl) NaN @ [Str (ascii ''left_only'')]]
             else map (\<lambda>r. l @ map snd (filter (\<lambda>(c, v). c \<notin> set on) (zip (columns right) r))
                             @ [Str (ascii ''both'')])
                    (filter (\<lambda>r. map (cell_at (columns right) r) on
                                  = map (cell_at (columns left) l) on) (rows right)))
            (rows left))\<rparr>"
  unfolding pd_merge_def Let_def assms(1) assms(3) option.case
  using assms(2,4,5) by simp

lemma pd_merge_scored:
  assumes pc: "plain_call u df1 df2"
  shows "pd_merge (scored lower u df1) (scored lower u df2) [ip_col u, computer_name_col u] =
     Inr \<lparr>columns = merged_columns u df1 df2,
          rows = concat (map (\<lambda>t.
             if filter (\<lambda>s. key_of u df2 s = key_of u df1 t) (rows df2) = []
             then [merged_left lower u df1 df2 t]
             else map (merged_both lower u df1 df2 t)
                    (filter (\<lambda>s. key_of u df2 s = key_of u df1 t) (rows df2))) (rows df1))\<rparr>"
proof -
  note c = plain_callD [OF pc]
  note p1 = plain_frameD [OF c(1)]
  note p2 = plain_frameD [OF c(2)]
  let ?K = "[ip_col u, computer_name_col u]"
  let ?L = "scored lower u df1" and ?R = "scored lower u df2"
  let ?a1 = "\<lambda>t. t @ [Num (score lower u df1 t)]"
  let ?a2 = "\<lambda>s. s @ [Num (score lower u df2 s)]"
  let ?rl = "map (rename df1) (rest_columns u df2)"
  have colsL: "columns ?L = columns df1 @ [priority_label]"
    and colsR: "columns ?R = columns df2 @ [priority_label]"
    and rowsL: "rows ?L = map ?a1 (rows df1)" and rowsR: "rows ?R = map ?a2 (rows df2)"
    by (simp_all add: scored_def)
  have keys: "find (\<lambda>k. k \<notin> set (columns ?L) \<or> k \<notin> set (columns ?R)) ?K = None"
    using c by (simp add: colsL colsR)
  have noind: "\<not> list_ex (\<lambda>i. i \<in> set (columns ?L) \<or> i \<in> set (columns ?R)) indicator_labels"
    using p1(5) p2(5)
    by (auto simp: list_ex_iff colsL colsR indicator_labels_def priority_label_def
        merge_label_def ascii_def)
  have rl: "map (\<lambda>c. if c \<in> set (columns ?L) then c @ df2_suffix else c)
              (filter (\<lambda>c. c \<notin> set ?K) (columns ?R)) = ?rl"
    by (simp add: colsL colsR rest_columns_def rename_def)
  have d: "distinct ?rl"
    using distinct_merged_columns [OF pc] by (simp add: merged_columns_def)
  have group: "(if filter (\<lambda>r. map (cell_at (columns ?R) r) ?K
                               = map (cell_at (columns ?L) (?a1 t)) ?K) (rows ?R) = []
                then [?a1 t @ replicate (length ?rl) NaN @ [Str (ascii ''left_only'')]]
                else map (\<lambda>r. ?a1 t @ map snd (filter (\<lambda>(c, v). c \<notin> set ?K)
                                  (zip (columns ?R) r)) @ [Str (ascii ''both'')])
                       (filter (\<lambda>r. map (cell_at (columns ?R) r) ?K
                               = map (cell_at (columns ?L) (?a1 t)) ?K) (rows ?R)))
      = (if filter (\<lambda>s. key_of u df2 s = key_of u df1 t) (rows df2) = []
         then [merged_left lower u df1 df2 t]
         else map (merged_both lower u df1 df2 t)
                (filter (\<lambda>s. key_of u df2 s = key_of u df1 t) (rows df2)))"
    if t: "t \<in> set (rows df1)" for t
  proof -
    have kt: "map (cell_at (columns ?L) (?a1 t)) ?K = key_of u df1 t"
      unfolding colsL using key_of_scored [OF c(1) t c(4,6)] .
    have f: "filter (\<lambda>r. map (cell_at (columns ?R) r) ?K = key_of u df1 t) (rows ?R)
        = map ?a2 (filter (\<lambda>s. key_of u df2 s = key_of u df1 t) (rows df2))"
      unfolding rowsR colsR filter_map comp_def
      using key_of_scored [OF c(2) _ c(5,7)]
      by (intro arg_cong [where f = "map ?a2"] filter_cong) auto
    have b: "?a1 t @ map snd (filter (\<lambda>(c, v). c \<notin> set ?K) (zip (columns ?R) (?a2 s)))
              @ [Str (ascii ''both'')] = merged_both lower u df1 df2 t s"
      if "s \<in> set (rows df2)" for s
      unfolding colsR merged_both_def using strip_scored [OF c(2) that] by simp
    show ?thesis
      unfolding kt f
      using b by (auto simp: merged_left_def comp_def)
  qed
  have rows_eq: "concat (map (\<lambda>l.
         if filter (\<lambda>r. map (cell_at (columns ?R) r) ?K
                              = map (cell_at (columns ?L) l) ?K) (rows ?R) = []
         then [l @ replicate (length ?rl) NaN @ [Str (ascii ''left_only'')]]
         else map (\<lambda>r. l @ map snd (filter (\<lambda>(c, v). c \<notin> set ?K)
                           (zip (columns ?R) r)) @ [Str (ascii ''both'')])
                (filter (\<lambda>r. map (cell_at (columns ?R) r) ?K
                              = map (cell_at (columns ?L) l) ?K) (rows ?R))) (rows ?L))
      = concat (map (\<lambda>t.
             if filter (\<lambda>s. key_of u df2 s = key_of u df1 t) (rows df2) = []
             then [merged_left lower u df1 df2 t]
             else map (merged_both lower u df1 df2 t)
                    (filter (\<lambda>s. key_of u df2 s = key_of u df1 t) (rows df2))) (rows df1))"
    unfolding rowsL map_map comp_def
    by (rule arg_cong [where f = concat], rule map_cong [OF refl]) (rule group)
  have nc: "\<not> list_ex (\<lambda>c. c \<in> set (columns ?L)
                         \<and> c \<notin> set (filter (\<lambda>c. c \<notin> set ?K) (columns ?R))) ?rl"
  proof
    assume "list_ex (\<lambda>c. c \<in> set (columns ?L)
                         \<and> c \<notin> set (filter (\<lambda>c. c \<notin> set ?K) (columns ?R))) ?rl"
    then obtain x where x: "x \<in> set ?rl" and xl: "x \<in> set (columns ?L)"
      unfolding list_ex_iff by blast
    from x obtain c' where c': "c' \<in> set (rest_columns u df2)" and xc: "x = rename df1 c'"
      by (auto simp: image_iff)
    from xl rename_fresh(1,2) [OF pc c'] xc show False
      unfolding colsL by simp
  qed
  have mc: "columns ?L @ ?rl @ [merge_label] = merged_columns u df1 df2"
    by (simp add: merged_columns_def colsL)
  show ?thesis
    unfolding pd_merge_ok [OF keys noind rl d nc] rows_eq mc ..
qed

subsection \<open>Cells of a merged row\<close>

lemma cell_at_map_inj:
  assumes "inj_on h (set xs)" "c \<in> set xs"
  shows "cell_at (map h xs) (map f xs) (h c) = f c"
  using assms
proof (induction xs)
  case Nil
  then show ?case by simp
next
  case (Cons a xs)
  show ?case
  proof (cases "h a = h c")
    case True
    then have "a = c" using Cons.prems by (auto dest: inj_onD)
    then show ?thesis by (simp add: cell_at_def)
  next
    case False
    then have "c \<in> set xs" using Cons.prems by auto
    moreover have "inj_on h (set xs)" using Cons.prems(1) by simp
    ultimately have "cell_at (map h xs) (map f xs) (h c) = f c" by (rule Cons.IH [rotated])
    then show ?thesis using False by (simp add: cell_at_def)
  qed
qed

lemma cell_at_single [simp]: "cell_at [c] [v] c = v"
  by (simp add: cell_at_def)

lemma merged_columns_mem:
  assumes pc: "plain_call u df1 df2"
  shows "c \<in> set (columns df1) \<Longrightarrow> c \<in> set (merged_columns u df1 df2)"
    and "priority_label \<in> set (merged_columns u df1 df2)"
    and "merge_label \<in> set (merged_columns u df1 df2)"
    and "c \<in> set (rest_columns u df2) \<Longrightarrow> rename df1 c \<in> set (merged_columns u df1 df2)"
  by (simp_all add: merged_columns_def)

lemma suffixed_in_merged:
  assumes pc: "plain_call u df1 df2" and c: "c \<in> set (rest_columns u df2)"
  shows "c @ df2_suffix \<in> set (merged_columns u df1 df2)
         \<longleftrightarrow> c \<in> set (columns df1 @ [priority_label])"
proof
  assume "c \<in> set (columns df1 @ [priority_label])"
  then have "rename df1 c = c @ df2_suffix" by (simp add: rename_def)
  then show "c @ df2_suffix \<in> set (merged_columns u df1 df2)"
    using merged_columns_mem(4) [OF pc c] by simp
next
  note s = suffixed_notin [OF pc]
  assume "c @ df2_suffix \<in> set (merged_columns u df1 df2)"
  then have "c @ df2_suffix \<in> rename df1 ` set (rest_columns u df2)"
    using s(1,3,4) [of c] by (simp add: merged_columns_def)
  then obtain c' where c': "c' \<in> set (rest_columns u df2)" and eq: "rename df1 c' = c @ df2_suffix"
    by auto
  have nc': "c' \<noteq> c @ df2_suffix"
    using rest_columns_subset [OF c'] s(2,5) [of c] by auto
  show "c \<in> set (columns df1 @ [priority_label])"
    using eq nc' by (simp add: rename_def split: if_splits)
qed

lemma merged_both_cells:
  assumes pc: "plain_call u df1 df2"
    and t: "t \<in> set (rows df1)" and s: "s \<in> set (rows df2)"
  shows "length (merged_both lower u df1 df2 t s) = length (merged_columns u df1 df2)"
    and "c \<in> set (columns df1) \<Longrightarrow>
         cell_at (merged_columns u df1 df2) (merged_both lower u df1 df2 t s) c
         = cell_at (columns df1) t c"
    and "cell_at (merged_columns u df1 df2) (merged_both lower u df1 df2 t s) priority_label
         = Num (score lower u df1 t)"
    and "c \<in> set (rest_columns u df2) \<Longrightarrow>
         cell_at (merged_columns u df1 df2) (merged_both lower u df1 df2 t s) (rename df1 c)
         = cell_at (columns df2 @ [priority_label]) (s @ [Num (score lower u df2 s)]) c"
    and "cell_at (merged_columns u df1 df2) (merged_both lower u df1 df2 t s) merge_label
         = Str (ascii ''both'')"
proof -
  note c0 = plain_callD [OF pc]
  note p1 = plain_frameD [OF c0(1)]
  have lt: "length t = length (columns df1)" using p1(2) [OF t] .
  let ?A = "columns df1 @ [priority_label]" and ?a = "t @ [Num (score lower u df1 t)]"
  let ?f = "cell_at (columns df2 @ [priority_label]) (s @ [Num (score lower u df2 s)])"
  let ?rest = "rest_columns u df2"
  have la: "length ?A = length ?a" using lt by simp
  have lr: "length (map (rename df1) ?rest) = length (map ?f ?rest)" by simp
  have inj: "inj_on (rename df1) (set ?rest)"
    by (rule inj_onI) (rule rename_inj [OF pc])
  show "length (merged_both lower u df1 df2 t s) = length (merged_columns u df1 df2)"
    using lt by (simp add: merged_both_def merged_columns_def)
  show "cell_at (merged_columns u df1 df2) (merged_both lower u df1 df2 t s) c
         = cell_at (columns df1) t c" if "c \<in> set (columns df1)"
    unfolding merged_both_def merged_columns_def
    using that lt by (simp only: cell_at_append [OF la]) (simp add: cell_at_scored)
  show "cell_at (merged_columns u df1 df2) (merged_both lower u df1 df2 t s) priority_label
         = Num (score lower u df1 t)"
    unfolding merged_both_def merged_columns_def
    using lt p1(3) by (simp only: cell_at_append [OF la]) (simp add: cell_at_append)
  show "cell_at (merged_columns u df1 df2) (merged_both lower u df1 df2 t s) (rename df1 c)
         = ?f c" if c: "c \<in> set ?rest"
  proof -
    have "rename df1 c \<notin> set ?A"
      using rename_fresh(1,2) [OF pc c] by simp
    then have "cell_at (merged_columns u df1 df2) (merged_both lower u df1 df2 t s) (rename df1 c)
        = cell_at (map (rename df1) ?rest @ [merge_label]) (map ?f ?rest @ [Str (ascii ''both'')])
            (rename df1 c)"
      unfolding merged_both_def merged_columns_def by (simp only: cell_at_append [OF la] if_False)
    also have "\<dots> = cell_at (map (rename df1) ?rest) (map ?f ?rest) (rename df1 c)"
      using c by (simp only: cell_at_append [OF lr]) simp
    also have "\<dots> = ?f c" by (rule cell_at_map_inj [OF inj c])
    finally show ?thesis .
  qed
  show "cell_at (merged_columns u df1 df2) (merged_both lower u df1 df2 t s) merge_label
         = Str (ascii ''both'')"
  proof -
    have 1: "merge_label \<notin> set ?A" using p1(4) label_facts(1) by auto
    have 2: "merge_label \<notin> set (map (rename df1) ?rest)"
      using rename_fresh(3) [OF pc] by (metis (no_types) imageE list.set_map)
    show ?thesis
      unfolding merged_both_def merged_columns_def
      using 1 2 by (simp only: cell_at_append [OF la] cell_at_append [OF lr] if_False cell_at_single)
  qed
qed

lemma merged_left_cells:
  assumes pc: "plain_call u df1 df2" and t: "t \<in> set (rows df1)"
  shows "length (merged_left lower u df1 df2 t) = length (merged_columns u df1 df2)"
    and "c \<in> set (columns df1) \<Longrightarrow>
         cell_at (merged_columns u df1 df2) (merged_left lower u df1 df2 t) c
         = cell_at (columns df1) t c"
    and "cell_at (merged_columns u df1 df2) (merged_left lower u df1 df2 t) merge_label
         = Str (ascii ''left_only'')"
proof -
  note c0 = plain_callD [OF pc]
  note p1 = plain_frameD [OF c0(1)]
  have lt: "length t = length (columns df1)" using p1(2) [OF t] .
  let ?A = "columns df1 @ [priority_label]" and ?a = "t @ [Num (score lower u df1 t)]"
  let ?rest = "rest_columns u df2"
  have la: "length ?A = length ?a" using lt by simp
  have lr: "length (map (rename df1) ?rest) = length (replicate (length ?rest) NaN)" by simp
  show "length (merged_left lower u df1 df2 t) = length (merged_columns u df1 df2)"
    using lt by (simp add: merged_left_def merged_columns_def)
  show "cell_at (merged_columns u df1 df2) (merged_left lower u df1 df2 t) c
         = cell_at (columns df1) t c" if "c \<in> set (columns df1)"
    unfolding merged_left_def merged_columns_def
    using that lt by (simp only: cell_at_append [OF la]) (simp add: cell_at_scored)
  have 1: "merge_label \<notin> set ?A" using p1(4) label_facts(1) by auto
  have 2: "merge_label \<notin> set (map (rename df1) ?rest)"
    using rename_fresh(3) [OF pc] by (metis (no_types) imageE list.set_map)
  show "cell_at (merged_columns u df1 df2) (merged_left lower u df1 df2 t) merge_label
         = Str (ascii ''left_only'')"
    unfolding merged_left_def merged_columns_def
    using 1 2 by (simp only: cell_at_append [OF la] cell_at_append [OF lr] if_False cell_at_single)
qed

subsection \<open>The row update on a merged row\<close>

lemma tab_self:
  assumes "distinct M" "length r = length M"
  shows "tab M (cell_at M r) = zip M r"
  using zip_tab [OF assms] by simp

lemma update_row_left:
  assumes pc: "plain_call u df1 df2" and t: "t \<in> set (rows df1)"
  shows "update_row u cols (zip (merged_columns u df1 df2) (merged_left lower u df1 df2 t))
         = Inr (zip (merged_columns u df1 df2) (merged_left lower u df1 df2 t))"
proof -
  let ?M = "merged_columns u df1 df2" and ?r = "merged_left lower u df1 df2 t"
  have z: "zip ?M ?r = tab ?M (cell_at ?M ?r)"
    by (rule zip_tab [OF distinct_merged_columns [OF pc] merged_left_cells(1) [OF pc t]])
  have g: "series_get (zip ?M ?r) merge_label = Inr (Str (ascii ''left_only''))"
    unfolding z series_get_tab
    using merged_columns_mem(3) [OF pc] merged_left_cells(3) [OF pc t] by simp
  have ne: "Str (ascii ''left_only'') \<noteq> Str (ascii ''both'')"
    by (simp add: ascii_def)
  show ?thesis
    unfolding update_row_def g using ne by simp
qed

lemma find_filter: "find p xs = (case filter p xs of [] \<Rightarrow> None | x # _ \<Rightarrow> Some x)"
  by (induction xs) auto

lemma find_source_only:
  assumes pc: "plain_call u df1 df2"
  shows "find (\<lambda>c. c \<notin> skip u \<and> c @ df2_suffix \<notin> set (merged_columns u df1 df2))
           (columns df2 @ [priority_label])
         = (case source_only u df1 df2 of [] \<Rightarrow> None | x # _ \<Rightarrow> Some x)"
proof -
  note c0 = plain_callD [OF pc]
  have P: "c \<notin> skip u \<and> c @ df2_suffix \<notin> set (merged_columns u df1 df2)
      \<longleftrightarrow> c \<noteq> ip_col u \<and> c \<noteq> computer_name_col u \<and> c \<notin> set (columns df1)"
    if c: "c \<in> set (columns df2)" for c
  proof (cases "c \<in> skip u")
    case True
    then show ?thesis
      using c plain_frameD(3) [OF c0(2)] by (auto simp: skip_def)
  next
    case False
    then have "c \<in> set (rest_columns u df2)"
      using c by (simp add: skip_def rest_columns_def)
    from suffixed_in_merged [OF pc this] False show ?thesis
      by (auto simp: skip_def)
  qed
  have "filter (\<lambda>c. c \<notin> skip u \<and> c @ df2_suffix \<notin> set (merged_columns u df1 df2))
          (columns df2 @ [priority_label]) = source_only u df1 df2"
    unfolding source_only_def filter_append
    using P by (auto simp: skip_def intro!: filter_cong)
  then show ?thesis by (simp only: find_filter)
qed

lemma update_row_both:
  assumes pc: "plain_call u df1 df2"
    and t: "t \<in> set (rows df1)" and s: "s \<in> set (rows df2)"
  shows "update_row u (columns df2 @ [priority_label])
           (zip (merged_columns u df1 df2) (merged_both lower u df1 df2 t s))
         = (if score lower u df1 t < score lower u df2 s
            then (case source_only u df1 df2 of
                    [] \<Rightarrow> Inr (tab (merged_columns u df1 df2) (updated_cell lower u df1 df2 t s))
                  | x # _ \<Rightarrow> Inl (KeyError (x @ df2_suffix)))
            else Inr (zip (merged_columns u df1 df2) (merged_both lower u df1 df2 t s)))"
proof -
  note c0 = plain_callD [OF pc]
  note p2 = plain_frameD [OF c0(2)]
  let ?M = "merged_columns u df1 df2" and ?r = "merged_both lower u df1 df2 t s"
  let ?G = "cell_at ?M ?r"
  note cells = merged_both_cells [OF pc t s, where lower = lower]
  have z: "zip ?M ?r = tab ?M ?G"
    by (rule zip_tab [OF distinct_merged_columns [OF pc] cells(1)])
  have Prest: "priority_label \<in> set (rest_columns u df2)"
    by (simp add: rest_columns_eq [OF pc])
  have rP: "rename df1 priority_label = priority_df2_label"
    by (simp add: rename_def priority_df2_label_eq)
  have g1: "series_get (zip ?M ?r) merge_label = Inr (Str (ascii ''both''))"
    unfolding z series_get_tab using merged_columns_mem(3) [OF pc] cells(5) by simp
  have g2: "series_get (zip ?M ?r) priority_label = Inr (Num (score lower u df1 t))"
    unfolding z series_get_tab using merged_columns_mem(2) [OF pc] cells(3) by simp
  have "?G priority_df2_label
      = cell_at (columns df2 @ [priority_label]) (s @ [Num (score lower u df2 s)]) priority_label"
    using cells(4) [OF Prest] unfolding rP .
  also have "\<dots> = Num (score lower u df2 s)"
    using p2(2) [OF s] p2(3) by (simp add: cell_at_append)
  finally have G3: "?G priority_df2_label = Num (score lower u df2 s)" .
  have "priority_df2_label \<in> set ?M"
    using merged_columns_mem(4) [OF pc Prest] unfolding rP .
  then have g3: "series_get (zip ?M ?r) priority_df2_label = Inr (Num (score lower u df2 s))"
    unfolding z series_get_tab using G3 by simp
  have a1: "\<forall>c\<in>set (columns df2 @ [priority_label]). c \<notin> skip u \<longrightarrow> c \<in> set ?M"
  proof (intro ballI impI)
    fix c assume c: "c \<in> set (columns df2 @ [priority_label])" and ns: "c \<notin> skip u"
    then have cr: "c \<in> set (rest_columns u df2)" by (simp add: skip_def rest_columns_def)
    show "c \<in> set ?M"
    proof (cases "c \<in> set (columns df1)")
      case True then show ?thesis by (rule merged_columns_mem(1) [OF pc])
    next
      case False
      then have "rename df1 c = c" using ns by (simp add: rename_def skip_def)
      then show ?thesis using merged_columns_mem(4) [OF pc cr] by simp
    qed
  qed
  have a2: "\<forall>c\<in>set (columns df2 @ [priority_label]).
              \<forall>c'\<in>set (columns df2 @ [priority_label]). c @ df2_suffix \<noteq> c'"
    using suffixed_notin(2,3) [OF pc] by auto
  have loop: "update_cols u (columns df2 @ [priority_label]) (zip ?M ?r)
      = (case source_only u df1 df2 of
           [] \<Rightarrow> Inr (tab ?M (updated_cell lower u df1 df2 t s))
         | x # _ \<Rightarrow> Inl (KeyError (x @ df2_suffix)))"
    unfolding z update_cols_tab [OF a1 a2] find_source_only [OF pc]
    by (cases "source_only u df1 df2") (simp_all add: updated_cell_def [abs_def])
  show ?thesis
    unfolding update_row_def g1 g2 g3 loop by simp
qed

subsection \<open>Row-wise application and projection\<close>

lemma map_rows_map: "map_rows f (map h xs) = map_rows (\<lambda>x. f (h x)) xs"
  by (induction xs) (auto split: sum.splits)

lemma map_rows_cases:
  assumes "\<forall>x\<in>set xs. f x = (if bad x then Inl e else Inr (k x))"
  shows "map_rows f xs = (if \<exists>x\<in>set xs. bad x then Inl e else Inr (map k xs))"
  using assms by (induction xs) (auto split: sum.splits)

lemma zip_map_same: "zip xs (map f xs) = tab xs f"
  unfolding tab_def by (induction xs) auto

lemma frame_of_series_tab:
  "frame_of_series M (map (\<lambda>p. tab M (g p)) ps)
   = \<lparr>columns = M, rows = map (\<lambda>p. map (g p) M) ps\<rparr>"
proof -
  have "set (concat (map (map fst) (map (\<lambda>p. tab M (g p)) ps))) \<subseteq> set M"
    by (auto simp: comp_def)
  then have 1: "filter (\<lambda>c. c \<notin> set M)
      (remdups (concat (map (map fst) (map (\<lambda>p. tab M (g p)) ps)))) = []"
    by (auto simp: filter_empty_conv)
  have 2: "map (\<lambda>c. case map_of (tab M (g p)) c of Some v \<Rightarrow> v | None \<Rightarrow> NaN) M = map (g p) M" for p
    by (rule map_cong [OF refl]) (simp add: map_of_tab)
  show ?thesis
    unfolding frame_of_series_def Let_def 1 by (simp add: comp_def 2)
qed

lemma apply_axis1_tab:
  assumes "\<forall>p\<in>set ps. f (zip M (build p)) = (if bad p then Inl e else Inr (tab M (g p)))"
  shows "apply_axis1 f \<lparr>columns = M, rows = map build ps\<rparr>
         = (if \<exists>p\<in>set ps. bad p then Inl e
            else Inr \<lparr>columns = M, rows = map (\<lambda>p. map (g p) M) ps\<rparr>)"
proof -
  have "map_rows f (map (zip M) (map build ps))
      = (if \<exists>p\<in>set ps. bad p then Inl e else Inr (map (\<lambda>p. tab M (g p)) ps))"
    unfolding map_map comp_def map_rows_map
    by (rule map_rows_cases) (use assms in simp)
  then show ?thesis
    by (simp add: apply_axis1_def frame_of_series_tab)
qed

lemma select_columns_ok:
  assumes "find (\<lambda>c. c \<notin> set (columns df)) cs = None"
  shows "select_columns df cs
         = Inr \<lparr>columns = cs, rows = map (\<lambda>r. map (cell_at (columns df) r) cs) (rows df)\<rparr>"
  by (simp add: select_columns_def assms)

lemma project_tab:
  assumes "set cs \<subseteq> set M" "set cs \<inter> set D = {}"
  shows "select_columns (drop_columns \<lparr>columns = M, rows = map (\<lambda>p. map (g p) M) ps\<rparr> D) cs
         = Inr \<lparr>columns = cs, rows = map (\<lambda>p. map (g p) cs) ps\<rparr>"
proof -
  let ?M' = "filter (\<lambda>c. c \<notin> set D) M"
  let ?df = "\<lparr>columns = ?M', rows = map (\<lambda>p. map (g p) ?M') ps\<rparr>"
  have d: "drop_columns \<lparr>columns = M, rows = map (\<lambda>p. map (g p) M) ps\<rparr> D = ?df"
    by (simp add: drop_columns_def zip_map_same filter_tab comp_def)
  have sub: "set cs \<subseteq> set ?M'" using assms by auto
  then have f: "find (\<lambda>c. c \<notin> set (columns ?df)) cs = None"
    by (auto simp: find_None_iff)
  have r: "map (cell_at ?M' (map (g p) ?M')) cs = map (g p) cs" for p
    by (rule map_cong [OF refl]) (use sub in \<open>auto simp: cell_at_map\<close>)
  show ?thesis
    unfolding d select_columns_ok [OF f] by (simp add: r comp_def)
qed

subsection \<open>Matched pairs\<close>

lemma match_pairs_mem:
  assumes "p \<in> set (match_pairs u df1 df2)"
  shows "fst p \<in> set (rows df1)" and "snd p = Some s \<Longrightarrow> s \<in> set (rows df2)"
    and "snd p = Some s \<Longrightarrow> key_of u df2 s = key_of u df1 (fst p)"
  using assms by (auto simp: match_pairs_def split: if_splits)

lemma merged_rows_pairs:
  "concat (map (\<lambda>t.
      if filter (\<lambda>s. key_of u df2 s = key_of u df1 t) (rows df2) = []
      then [merged_left lower u df1 df2 t]
      else map (merged_both lower u df1 df2 t)
             (filter (\<lambda>s. key_of u df2 s = key_of u df1 t) (rows df2))) (rows df1))
   = map (merged_row lower u df1 df2) (match_pairs u df1 df2)"
  unfolding match_pairs_def map_concat map_map comp_def
  by (rule arg_cong [where f = concat], rule map_cong [OF refl])
     (simp add: merged_row_def comp_def)

lemma per_match_rows_pairs:
  "per_match_rows lower u df1 df2 = map (final_row lower u df1 df2) (match_pairs u df1 df2)"
  unfolding per_match_rows_def match_pairs_def map_concat map_map comp_def Let_def
  by (rule arg_cong [where f = concat], rule map_cong [OF refl])
     (simp add: final_row_def comp_def)

lemma strict_match_pairs:
  "strict_match lower u df1 df2
   \<longleftrightarrow> (\<exists>p\<in>set (match_pairs u df1 df2). strict_pair lower u df1 df2 p)"
proof
  assume "strict_match lower u df1 df2"
  then obtain t s where t: "t \<in> set (rows df1)" and s: "s \<in> set (rows df2)"
    and k: "key_of u df2 s = key_of u df1 t"
    and lt: "score lower u df1 t < score lower u df2 s"
    by (auto simp: strict_match_def list_ex_iff)
  have m: "s \<in> set (filter (\<lambda>s. key_of u df2 s = key_of u df1 t) (rows df2))"
    using s k by simp
  then have ne: "filter (\<lambda>s. key_of u df2 s = key_of u df1 t) (rows df2) \<noteq> []"
    by (metis empty_iff list.set(1))
  have "(t, Some s) \<in> set (map (\<lambda>s. (t, Some s))
      (filter (\<lambda>s. key_of u df2 s = key_of u df1 t) (rows df2)))"
    using m by (simp add: image_iff)
  then have "(t, Some s) \<in> set (match_pairs u df1 df2)"
    unfolding match_pairs_def set_concat set_map using t ne
    by (intro UN_I [of "(\<lambda>t. if filter (\<lambda>s. key_of u df2 s = key_of u df1 t) (rows df2) = [] then [(t, None)]
        else map (\<lambda>s. (t, Some s)) (filter (\<lambda>s. key_of u df2 s = key_of u df1 t) (rows df2))) t"])
      (auto simp: image_iff)
  moreover have "strict_pair lower u df1 df2 (t, Some s)"
    using lt by (simp add: strict_pair_def)
  ultimately show "\<exists>p\<in>set (match_pairs u df1 df2). strict_pair lower u df1 df2 p" by blast
next
  assume "\<exists>p\<in>set (match_pairs u df1 df2). strict_pair lower u df1 df2 p"
  then obtain p where p: "p \<in> set (match_pairs u df1 df2)"
    and sp: "strict_pair lower u df1 df2 p" by blast
  from sp obtain s where s: "snd p = Some s"
    and lt: "score lower u df1 (fst p) < score lower u df2 s"
    by (auto simp: strict_pair_def split: option.splits)
  from match_pairs_mem [OF p] s lt show "strict_match lower u df1 df2"
    by (auto simp: strict_match_def list_ex_iff)
qed

subsection \<open>The merge and update of two scored frames\<close>

lemma map_cell_at_self:
  assumes "distinct C" "length r = length C"
  shows "map (cell_at C r) C = r"
proof -
  have "map snd (zip C r) = r" using assms(2) by simp
  then show ?thesis unfolding zip_tab [OF assms] by simp
qed

lemma updated_cell_project:
  assumes pc: "plain_call u df1 df2"
    and t: "t \<in> set (rows df1)" and s: "s \<in> set (rows df2)"
  shows "map (updated_cell lower u df1 df2 t s) (columns df1) = replaced u df1 df2 t s"
  unfolding replaced_def
proof (rule map_cong [OF refl])
  fix c assume c: "c \<in> set (columns df1)"
  note c0 = plain_callD [OF pc]
  note p1 = plain_frameD [OF c0(1)]
  note p2 = plain_frameD [OF c0(2)]
  note cells = merged_both_cells [OF pc t s, where lower = lower]
  have cP: "c \<noteq> priority_label" using c p1(3) by auto
  show "updated_cell lower u df1 df2 t s c =
        (if c \<in> set (columns df2) \<and> c \<noteq> ip_col u \<and> c \<noteq> computer_name_col u
         then cell_at (columns df2) s c else cell_at (columns df1) t c)"
  proof (cases "c \<in> set (columns df2) \<and> c \<noteq> ip_col u \<and> c \<noteq> computer_name_col u")
    case True
    then have cr: "c \<in> set (rest_columns u df2)" by (simp add: rest_columns_def)
    have rn: "rename df1 c = c @ df2_suffix" using c by (simp add: rename_def)
    have "updated_cell lower u df1 df2 t s c
        = cell_at (merged_columns u df1 df2) (merged_both lower u df1 df2 t s) (c @ df2_suffix)"
      using True cP by (simp add: updated_cell_def skip_def)
    also have "\<dots> = cell_at (columns df2 @ [priority_label]) (s @ [Num (score lower u df2 s)]) c"
      using cells(4) [OF cr] unfolding rn .
    also have "\<dots> = cell_at (columns df2) s c"
      using True p2(2) [OF s] by (simp add: cell_at_scored)
    finally show ?thesis using True by simp
  next
    case False
    then have "updated_cell lower u df1 df2 t s c
        = cell_at (merged_columns u df1 df2) (merged_both lower u df1 df2 t s) c"
      using cP by (auto simp: updated_cell_def skip_def)
    then show ?thesis using False cells(2) [OF c] by auto
  qed
qed

lemma result_cell_project:
  assumes pc: "plain_call u df1 df2" and p: "p \<in> set (match_pairs u df1 df2)"
  shows "map (result_cell lower u df1 df2 p) (columns df1) = final_row lower u df1 df2 p"
proof -
  note c0 = plain_callD [OF pc]
  note p1 = plain_frameD [OF c0(1)]
  note m = match_pairs_mem [OF p]
  have self: "map (cell_at (columns df1) (fst p)) (columns df1) = fst p"
    by (rule map_cell_at_self [OF p1(1) p1(2) [OF m(1)]])
  show ?thesis
  proof (cases "snd p")
    case None
    have "map (cell_at (merged_columns u df1 df2) (merged_left lower u df1 df2 (fst p))) (columns df1)
        = map (cell_at (columns df1) (fst p)) (columns df1)"
      by (rule map_cong [OF refl]) (rule merged_left_cells(2) [OF pc m(1)])
    then show ?thesis using None self by (simp add: result_cell_def final_row_def)
  next
    case (Some s)
    note sm = m(2) [OF Some]
    have "map (cell_at (merged_columns u df1 df2) (merged_both lower u df1 df2 (fst p) s)) (columns df1)
        = map (cell_at (columns df1) (fst p)) (columns df1)"
      by (rule map_cong [OF refl]) (rule merged_both_cells(2) [OF pc m(1) sm])
    then show ?thesis
      using Some self updated_cell_project [OF pc m(1) sm]
      by (simp add: result_cell_def final_row_def)
  qed
qed

lemma update_row_pair:
  assumes pc: "plain_call u df1 df2" and p: "p \<in> set (match_pairs u df1 df2)"
  shows "update_row u (columns df2 @ [priority_label])
           (zip (merged_columns u df1 df2) (merged_row lower u df1 df2 p))
         = (if strict_pair lower u df1 df2 p \<and> source_only u df1 df2 \<noteq> []
            then Inl (KeyError (hd (source_only u df1 df2) @ df2_suffix))
            else Inr (tab (merged_columns u df1 df2) (result_cell lower u df1 df2 p)))"
proof -
  note m = match_pairs_mem [OF p]
  note d = distinct_merged_columns [OF pc]
  show ?thesis
  proof (cases "snd p")
    case None
    then show ?thesis
      using update_row_left [OF pc m(1)] tab_self [OF d merged_left_cells(1) [OF pc m(1)]]
      by (simp add: merged_row_def strict_pair_def result_cell_def)
  next
    case (Some s)
    note sm = m(2) [OF Some]
    show ?thesis
      using Some update_row_both [OF pc m(1) sm, of lower]
        tab_self [OF d merged_both_cells(1) [OF pc m(1) sm], of lower]
      by (cases "source_only u df1 df2") (simp_all add: merged_row_def strict_pair_def result_cell_def)
  qed
qed

lemma merge_and_update_scored:
  assumes pc: "plain_call u df1 df2"
  shows "merge_and_update u (scored lower u df1) (scored lower u df2)
         = (if strict_match lower u df1 df2 \<and> source_only u df1 df2 \<noteq> []
            then Inl (KeyError (hd (source_only u df1 df2) @ df2_suffix))
            else Inr \<lparr>columns = columns df1, rows = per_match_rows lower u df1 df2\<rparr>)"
proof -
  note c0 = plain_callD [OF pc]
  note p1 = plain_frameD [OF c0(1)]
  let ?M = "merged_columns u df1 df2"
  let ?ps = "match_pairs u df1 df2"
  let ?D = "[priority_label, priority_df2_label, merge_label]"
  let ?e = "KeyError (hd (source_only u df1 df2) @ df2_suffix)"
  let ?bad = "\<lambda>p. strict_pair lower u df1 df2 p \<and> source_only u df1 df2 \<noteq> []"
  let ?upd = "\<lparr>columns = ?M, rows = map (\<lambda>p. map (result_cell lower u df1 df2 p) ?M) ?ps\<rparr>"
  have mg: "pd_merge (scored lower u df1) (scored lower u df2) [ip_col u, computer_name_col u]
      = Inr \<lparr>columns = ?M, rows = map (merged_row lower u df1 df2) ?ps\<rparr>"
    unfolding pd_merge_scored [OF pc] merged_rows_pairs ..
  have cols2: "columns (scored lower u df2) = columns df2 @ [priority_label]"
    by (simp add: scored_def)
  have ap: "apply_axis1 (update_row u (columns df2 @ [priority_label]))
        \<lparr>columns = ?M, rows = map (merged_row lower u df1 df2) ?ps\<rparr>
      = (if \<exists>p\<in>set ?ps. ?bad p then Inl ?e else Inr ?upd)"
    by (rule apply_axis1_tab) (use update_row_pair [OF pc] in blast)
  have bad: "(\<exists>p\<in>set ?ps. ?bad p)
      \<longleftrightarrow> strict_match lower u df1 df2 \<and> source_only u df1 df2 \<noteq> []"
    unfolding strict_match_pairs by blast
  have sub: "set (columns df1) \<subseteq> set ?M"
    using merged_columns_mem(1) [OF pc] by blast
  have dj: "set (columns df1) \<inter> set ?D = {}"
    using p1(3,4) suffixed_notin(1) [OF pc, of priority_label]
    by (auto simp: priority_df2_label_eq)
  have ex: "filter (\<lambda>col. col \<in> set (columns (drop_columns ?upd ?D))) (columns (scored lower u df1))
      = columns df1"
  proof -
    have 1: "filter (\<lambda>col. col \<in> set (columns (drop_columns ?upd ?D))) (columns df1) = columns df1"
      using sub dj by (auto simp: drop_columns_def filter_id_conv)
    have 2: "priority_label \<notin> set (columns (drop_columns ?upd ?D))"
      by (simp add: drop_columns_def)
    show ?thesis using 1 2 by (simp add: scored_def)
  qed
  have pr: "select_columns (drop_columns ?upd ?D) (columns df1)
      = Inr \<lparr>columns = columns df1, rows = per_match_rows lower u df1 df2\<rparr>"
    unfolding project_tab [OF sub dj] per_match_rows_pairs
    using result_cell_project [OF pc] by (simp cong: map_cong)
  show ?thesis
  proof (cases "strict_match lower u df1 df2 \<and> source_only u df1 df2 \<noteq> []")
    case True
    then have "apply_axis1 (update_row u (columns df2 @ [priority_label]))
        \<lparr>columns = ?M, rows = map (merged_row lower u df1 df2) ?ps\<rparr> = Inl ?e"
      unfolding ap bad by simp
    then show ?thesis
      unfolding merge_and_update_def mg cols2 using True by simp
  next
    case False
    then have "apply_axis1 (update_row u (columns df2 @ [priority_label]))
        \<lparr>columns = ?M, rows = map (merged_row lower u df1 df2) ?ps\<rparr> = Inr ?upd"
      unfolding ap bad by simp
    then show ?thesis
      unfolding merge_and_update_def mg cols2 using False
      by (simp only: sum.case Let_def ex pr if_False)
  qed
qed

subsection \<open>The method on a store\<close>

lemma assign_priority_plain:
  assumes "plain_frame (frames h a)" "value_col u \<in> set (columns (frames h a))"
  shows "assign_priority lower u a h
         = Inr (h\<lparr>frames := (frames h)(a := scored lower u (frames h a))\<rparr>)"
proof -
  have g: "getitem_column (frames h a) (value_col u)
      = Inr (map (\<lambda>r. cell_at (columns (frames h a)) r (value_col u)) (rows (frames h a)))"
    using assms(2) by (simp add: getitem_column_def)
  show ?thesis
    unfolding assign_priority_def g sum.case
      set_column_scored [OF plain_frameD(3) [OF assms(1)]] ..
qed

lemma assign_priority_scored:
  assumes "frames h a = scored lower u df" "plain_frame df" "value_col u \<in> set (columns df)"
  shows "assign_priority lower u a h = Inr h"
proof -
  have v: "value_col u \<in> set (columns (scored lower u df))"
    using assms(3) by (simp add: scored_def)
  have g: "getitem_column (scored lower u df) (value_col u)
      = Inr (map (\<lambda>r. cell_at (columns (scored lower u df)) r (value_col u))
               (rows (scored lower u df)))"
    using v by (simp add: getitem_column_def)
  have "(frames h)(a := scored lower u df) = frames h"
    using assms(1) by auto
  then have "h\<lparr>frames := (frames h)(a := scored lower u df)\<rparr> = h" by simp
  then show ?thesis
    unfolding assign_priority_def assms(1) g sum.case
      set_column_scored_again [OF assms(2,3)] by simp
qed

lemma assign_both:
  assumes pc: "plain_call u (frames h a1) (frames h a2)"
  shows "assign_priority lower u a1 h
         = Inr (h\<lparr>frames := (frames h)(a1 := scored lower u (frames h a1))\<rparr>)"
    and "assign_priority lower u a2 (h\<lparr>frames := (frames h)(a1 := scored lower u (frames h a1))\<rparr>)
         = Inr (after_scoring lower u a1 a2 h)"
proof -
  note c0 = plain_callD [OF pc]
  let ?h1 = "h\<lparr>frames := (frames h)(a1 := scored lower u (frames h a1))\<rparr>"
  show "assign_priority lower u a1 h = Inr ?h1"
    by (rule assign_priority_plain [OF c0(1,8)])
  show "assign_priority lower u a2 ?h1 = Inr (after_scoring lower u a1 a2 h)"
  proof (cases "a2 = a1")
    case True
    have "assign_priority lower u a2 ?h1 = Inr ?h1"
      by (rule assign_priority_scored [where df = "frames h a1"]) (use True c0 in simp_all)
    moreover have "after_scoring lower u a1 a2 h = ?h1"
      using True by (simp add: after_scoring_def)
    ultimately show ?thesis by simp
  next
    case False
    have "assign_priority lower u a2 ?h1
        = Inr (?h1\<lparr>frames := (frames ?h1)(a2 := scored lower u (frames ?h1 a2))\<rparr>)"
      by (rule assign_priority_plain) (use False c0 in simp_all)
    then show ?thesis using False by (simp add: after_scoring_def)
  qed
qed

lemma after_scoring_frames:
  "frames (after_scoring lower u a1 a2 h) a2 = scored lower u (frames h a2)"
  "frames (after_scoring lower u a1 a2 h) a1 = scored lower u (frames h a1)"
  "next_id (after_scoring lower u a1 a2 h) = next_id h"
  "a \<noteq> a1 \<Longrightarrow> a \<noteq> a2 \<Longrightarrow> frames (after_scoring lower u a1 a2 h) a = frames h a"
  by (auto simp: after_scoring_def)

lemma compare_and_update_plain:
  assumes pc: "plain_call u (frames h a1) (frames h a2)"
  shows "compare_and_update_dataframe lower u a1 a2 h
         = (if strict_match lower u (frames h a1) (frames h a2)
                \<and> source_only u (frames h a1) (frames h a2) \<noteq> []
            then (Inl (KeyError (hd (source_only u (frames h a1) (frames h a2)) @ df2_suffix)),
                  after_scoring lower u a1 a2 h)
            else (Inr (next_id h),
                  (after_scoring lower u a1 a2 h)
                    \<lparr>frames := (frames (after_scoring lower u a1 a2 h))
                       (next_id h := \<lparr>columns = columns (frames h a1),
                                       rows = per_match_rows lower u (frames h a1) (frames h a2)\<rparr>),
                     next_id := Suc (next_id h)\<rparr>))"
proof -
  have v: "list_all (\<lambda>col. col \<in> set (columns (frames h a1)) \<and> col \<in> set (columns (frames h a2)))
      [ip_col u, computer_name_col u, value_col u]"
    using pc by (simp add: plain_call_def)
  note a = assign_both [OF pc, of lower]
  show ?thesis
    unfolding compare_and_update_dataframe_def
    using v a merge_and_update_scored [OF pc, of lower]
    by (simp add: after_scoring_frames(1,2,3))
qed

subsection \<open>What a call returns\<close>

lemma call_returns:
  assumes "plain_call u (frames h df1) (frames h df2)"
    and "source_only u (frames h df1) (frames h df2) = []
         \<or> \<not> strict_match lower u (frames h df1) (frames h df2)"
  shows "fst (compare_and_update_dataframe lower u df1 df2 h) = Inr (next_id h)"
    and "frames (snd (compare_and_update_dataframe lower u df1 df2 h)) (next_id h)
         = \<lparr>columns = columns (frames h df1),
            rows = per_match_rows lower u (frames h df1) (frames h df2)\<rparr>"
  using assms(2) unfolding compare_and_update_plain [OF assms(1)] by auto

lemma call_result:
  assumes "plain_call u (frames h df1) (frames h df2)"
    and "fst (compare_and_update_dataframe lower u df1 df2 h) = Inr a"
  shows "a = next_id h"
    and "frames (snd (compare_and_update_dataframe lower u df1 df2 h)) a
         = \<lparr>columns = columns (frames h df1),
            rows = per_match_rows lower u (frames h df1) (frames h df2)\<rparr>"
  using assms(2) unfolding compare_and_update_plain [OF assms(1)]
  by (auto split: if_splits)

lemma matched_in_rows:
  assumes "t \<in> set (rows df1)" "s \<in> set (rows df2)" "key_of u df2 s = key_of u df1 t"
  shows "(if score lower u df1 t < score lower u df2 s then replaced u df1 df2 t s else t)
         \<in> set (per_match_rows lower u df1 df2)"
proof -
  let ?ms = "filter (\<lambda>s. key_of u df2 s = key_of u df1 t) (rows df2)"
  have m: "s \<in> set ?ms" using assms(2,3) by simp
  then have ne: "?ms \<noteq> []" by (metis empty_iff list.set(1))
  have "(if score lower u df1 t < score lower u df2 s then replaced u df1 df2 t s else t)
      \<in> set (map (\<lambda>s. if score lower u df1 t < score lower u df2 s
                       then replaced u df1 df2 t s else t) ?ms)"
    using m by (simp add: image_iff) blast
  then show ?thesis
    unfolding per_match_rows_def Let_def set_concat set_map using assms(1) ne
    by (intro UN_I [of "(\<lambda>t. if filter (\<lambda>s. key_of u df2 s = key_of u df1 t) (rows df2) = []
          then [t]
          else map (\<lambda>s. if score lower u df1 t < score lower u df2 s
                         then replaced u df1 df2 t s else t)
                 (filter (\<lambda>s. key_of u df2 s = key_of u df1 t) (rows df2))) t"])
      (auto simp: image_iff)
qed

lemma unmatched_in_rows:
  assumes "t \<in> set (rows df1)" "\<forall>s\<in>set (rows df2). key_of u df2 s \<noteq> key_of u df1 t"
  shows "t \<in> set (per_match_rows lower u df1 df2)"
proof -
  have e: "filter (\<lambda>s. key_of u df2 s = key_of u df1 t) (rows df2) = []"
    using assms(2) by (auto simp: filter_empty_conv)
  show ?thesis
    unfolding per_match_rows_def Let_def set_concat set_map using assms(1) e
    by (intro UN_I [of "(\<lambda>t. if filter (\<lambda>s. key_of u df2 s = key_of u df1 t) (rows df2) = []
          then [t]
          else map (\<lambda>s. if score lower u df1 t < score lower u df2 s
                         then replaced u df1 df2 t s else t)
                 (filter (\<lambda>s. key_of u df2 s = key_of u df1 t) (rows df2))) t"])
      (auto simp: image_iff)
qed

lemma cell_at_replaced:
  assumes "c \<in> set (columns df1)"
  shows "cell_at (columns df1) (replaced u df1 df2 t s) c
         = (if c \<in> set (columns df2) \<and> c \<noteq> ip_col u \<and> c \<noteq> computer_name_col u
            then cell_at (columns df2) s c else cell_at (columns df1) t c)"
  unfolding replaced_def using cell_at_map [OF assms] by simp

lemma store_of_simps:
  "frames (store_of a b) 0 = a" "frames (store_of a b) (Suc 0) = b" "next_id (store_of a b) = 2"
  by (simp_all add: store_of_def)

subsection \<open>The example frames\<close>

lemmas example_defs = example_updater_def example_target_def example_source_one_def
  example_source_two_def example_no_value_def word_vazhno_def word_ochen_vazhno_def
  word_sredne_def word_ne_ochen_def word_pusto_def ascii_def

lemmas vocabulary_defs = plain_call_def plain_frame_def reserved_label_def endswith_def
  priority_label_def merge_label_def df2_suffix_def indicator_labels_def source_only_def
  strict_match_def per_match_rows_def key_of_def score_def replaced_def cell_at_def
  get_priority_def PRIORITY_MAP_def str_lower_def lower_cp_def
  exact_call_def exact_frame_def float_exact_def

lemma store_of_call:
  assumes "plain_call u a b" "source_only u a b = [] \<or> \<not> strict_match lower u a b"
  shows "fst (compare_and_update_dataframe lower u 0 1 (store_of a b)) = Inr 2"
    and "frames (snd (compare_and_update_dataframe lower u 0 1 (store_of a b))) 2
         = \<lparr>columns = columns a, rows = per_match_rows lower u a b\<rparr>"
  using call_returns [of u "store_of a b" 0 1 lower] assms
  by (simp_all add: store_of_def)




subsection \<open>Shape of the result and state of the inputs\<close>

lemma validation_failure:
  assumes "\<not> list_all (\<lambda>col. col \<in> set (columns (frames h df1)) \<and> col \<in> set (columns (frames h df2)))
             [ip_col u, computer_name_col u, value_col u]"
  shows "compare_and_update_dataframe lower u df1 df2 h = (Inr df1, h)"
  using assms unfolding compare_and_update_dataframe_def by simp



lemma call_inputs:
  assumes "plain_call u (frames h df1) (frames h df2)" and "a < next_id h"
  shows "frames (snd (compare_and_update_dataframe lower u df1 df2 h)) a
         = frames (after_scoring lower u df1 df2 h) a"
  using assms(2) unfolding compare_and_update_plain [OF assms(1)] by auto

lemma drop_scored:
  assumes "plain_frame df"
  shows "drop_columns (scored lower u df) [priority_label] = df"
proof -
  note p = plain_frameD [OF assms]
  have c: "filter (\<lambda>c. c \<notin> set [priority_label]) (columns df @ [priority_label]) = columns df"
    using p(3) by (auto simp: filter_id_conv)
  have r: "map snd (filter (\<lambda>(c, v). c \<notin> set [priority_label])
              (zip (columns df @ [priority_label]) (r @ [x]))) = r"
    if "r \<in> set (rows df)" for r x
  proof -
    have l: "length r = length (columns df)" using p(2) [OF that] .
    have "filter (\<lambda>(c, v). c \<notin> set [priority_label]) (zip (columns df) r) = zip (columns df) r"
      using p(3) by (auto simp: filter_id_conv dest: set_zip_leftD)
    then show ?thesis using l by simp
  qed
  have "map (\<lambda>r. map snd (filter (\<lambda>(c, v). c \<notin> set [priority_label])
              (zip (columns df @ [priority_label]) (r @ [Num (score lower u df r)])))) (rows df)
      = rows df"
    using r by (simp add: map_idI)
  then show ?thesis
    unfolding drop_columns_def scored_def using c by (simp add: comp_def)
qed

lemma example_one_plain: "plain_call example_updater example_target example_source_one"
  by (simp add: vocabulary_defs example_defs)

lemma example_one_source_only:
  "source_only example_updater example_target example_source_one = []"
  by (simp add: vocabulary_defs example_defs)

lemma example_extra_plain: "plain_call example_updater example_target example_source_extra"
  by (simp add: vocabulary_defs example_defs example_source_extra_def)

lemma example_extra_strict:
  "strict_match str_lower example_updater example_target example_source_extra"
  by (simp add: vocabulary_defs example_defs example_source_extra_def)

lemma example_extra_source_only:
  "source_only example_updater example_target example_source_extra = [ascii ''y'']"
  by (simp add: vocabulary_defs example_defs example_source_extra_def)

lemma example_pair_plain:
  "plain_call example_updater example_target_pair example_source_extra"
  by (simp add: vocabulary_defs example_defs example_target_pair_def example_source_extra_def)

lemma example_pair_strict:
  "strict_match str_lower example_updater example_target_pair example_source_extra"
  by (simp add: vocabulary_defs example_defs example_target_pair_def example_source_extra_def)

lemma example_pair_source_only:
  "source_only example_updater example_target_pair example_source_extra = [ascii ''y'']"
  by (simp add: vocabulary_defs example_defs example_target_pair_def example_source_extra_def)

lemma source_only_self: "source_only u df df = []"
  by (auto simp: source_only_def filter_empty_conv)

lemma filter_same_key:
  assumes "distinct (map f xs)" "x \<in> set xs"
  shows "filter (\<lambda>y. f y = f x) xs = [x]"
  using assms
proof (induction xs)
  case Nil
  then show ?case by simp
next
  case (Cons a xs)
  show ?case
  proof (cases "a = x")
    case True
    then have "f x \<notin> f ` set xs" using Cons.prems(1) by simp
    then have "\<forall>y\<in>set xs. f y \<noteq> f x" by (metis image_eqI)
    then have "filter (\<lambda>y. f y = f x) xs = []" by (auto simp: filter_empty_conv)
    then show ?thesis using True by simp
  next
    case False
    then have x: "x \<in> set xs" using Cons.prems(2) by simp
    then have "f a \<noteq> f x" using Cons.prems(1) by auto
    then show ?thesis using Cons.IH [OF _ x] Cons.prems(1) by simp
  qed
qed

lemma per_match_rows_self:
  assumes "distinct (map (key_of u df) (rows df))"
  shows "per_match_rows lower u df df = rows df"
proof -
  have "(let ms = filter (\<lambda>s. key_of u df s = key_of u df t) (rows df)
         in if ms = [] then [t]
            else map (\<lambda>s. if score lower u df t < score lower u df s
                           then replaced u df df t s else t) ms) = [t]"
    if "t \<in> set (rows df)" for t
    using filter_same_key [OF assms that] by simp
  then have e: "map (\<lambda>t. let ms = filter (\<lambda>s. key_of u df s = key_of u df t) (rows df)
         in if ms = [] then [t]
            else map (\<lambda>s. if score lower u df t < score lower u df s
                           then replaced u df df t s else t) ms) (rows df)
      = map (\<lambda>t. [t]) (rows df)"
    by (intro map_cong [OF refl])
  show ?thesis
    unfolding per_match_rows_def e by simp
qed

section \<open>Matched pairs\<close>

text \<open>
  Claim C1 fails on the code, by the slip in \<open>update_row\<close> that claim C7 meets. The target
  has the columns ip, name, value, x and one record, of rank 1; the source has the columns
  ip, name, value, y and one record with the same key, of rank 5. The pair is matched and
  the source outranks the target, so the claim has an output record with the value of the
  source and the \<open>x\<close> of the target. The loop of \<open>update_row\<close> reaches the source column
  \<open>y\<close>, reads \<open>row['y_df2']\<close>, which the merged row does not have, and the call raises
  \<open>KeyError\<close>: there is no output record.
\<close>

theorem matched_pair_raises:
  "rows example_target
     = [[Str (ascii ''10.0.0.1''), Str (ascii ''PC-1''), Str word_pusto, Str (ascii ''a'')]]
   \<and> rows example_source_extra
     = [[Str (ascii ''10.0.0.1''), Str (ascii ''PC-1''), Str word_vazhno, Str (ascii ''b'')]]
   \<and> key_of example_updater example_source_extra (hd (rows example_source_extra))
     = key_of example_updater example_target (hd (rows example_target))
   \<and> score str_lower example_updater example_target (hd (rows example_target)) = 1
   \<and> score str_lower example_updater example_source_extra (hd (rows example_source_extra)) = 5
   \<and> fst (compare_and_update_dataframe str_lower example_updater 0 1
          (store_of example_target example_source_extra)) = Inl (KeyError (ascii ''y_df2''))"
proof -
  let ?h = "store_of example_target example_source_extra"
  have f: "frames ?h 0 = example_target" "frames ?h 1 = example_source_extra"
    by (simp_all add: store_of_def)
  have pc: "plain_call example_updater (frames ?h 0) (frames ?h 1)"
    unfolding f by (rule example_extra_plain)
  have c: "fst (compare_and_update_dataframe str_lower example_updater 0 1 ?h)
      = Inl (KeyError (ascii ''y_df2''))"
    unfolding compare_and_update_plain [OF pc] f
    using example_extra_strict
    by (simp add: example_extra_source_only df2_suffix_def ascii_def)
  have r: "rows example_target
     = [[Str (ascii ''10.0.0.1''), Str (ascii ''PC-1''), Str word_pusto, Str (ascii ''a'')]]"
    "rows example_source_extra
     = [[Str (ascii ''10.0.0.1''), Str (ascii ''PC-1''), Str word_vazhno, Str (ascii ''b'')]]"
    by (simp_all add: example_defs example_source_extra_def)
  have k: "key_of example_updater example_source_extra (hd (rows example_source_extra))
     = key_of example_updater example_target (hd (rows example_target))"
    by (simp add: vocabulary_defs example_defs example_source_extra_def)
  have s: "score str_lower example_updater example_target (hd (rows example_target)) = 1"
    "score str_lower example_updater example_source_extra (hd (rows example_source_extra)) = 5"
    by (simp_all add: vocabulary_defs example_defs example_source_extra_def)
  show ?thesis
    by (intro conjI) (rule r(1), rule r(2), rule k, rule s(1), rule s(2), rule c)
qed

text \<open>
  Where that slip is out of reach the method resolves a matched pair as the design says.
  On an exact call on plain frames, when the source has no column the target lacks or no
  match is strict, the call returns a frame with the columns of the target, and every
  matched pair \<open>(t, s)\<close> has its record there: when the score of \<open>s\<close> is strictly greater
  than the score of \<open>t\<close>, the record has the cell of \<open>s\<close> in every column of the source
  other than the two key columns, and the cell of \<open>t\<close> in the key columns and in the
  columns only the target has; otherwise (ties included) it has the cells of \<open>t\<close>
  everywhere.
\<close>

lemma matched_pair_record:
  assumes "plain_call u (frames h df1) (frames h df2)"
    and "exact_call lower u (frames h df1) (frames h df2)"
    and "source_only u (frames h df1) (frames h df2) = []
         \<or> \<not> strict_match lower u (frames h df1) (frames h df2)"
    and "t \<in> set (rows (frames h df1))" and "s \<in> set (rows (frames h df2))"
    and "key_of u (frames h df2) s = key_of u (frames h df1) t"
  shows "fst (compare_and_update_dataframe lower u df1 df2 h) = Inr (next_id h)
     \<and> columns (frames (snd (compare_and_update_dataframe lower u df1 df2 h)) (next_id h))
         = columns (frames h df1)
     \<and> (\<exists>r\<in>set (rows (frames (snd (compare_and_update_dataframe lower u df1 df2 h))
                            (next_id h))).
          \<forall>c\<in>set (columns (frames h df1)).
            cell_at (columns (frames (snd (compare_and_update_dataframe lower u df1 df2 h))
                               (next_id h))) r c
            = (if score lower u (frames h df1) t < score lower u (frames h df2) s
                  \<and> c \<in> set (columns (frames h df2))
                  \<and> c \<noteq> ip_col u \<and> c \<noteq> computer_name_col u
               then cell_at (columns (frames h df2)) s c
               else cell_at (columns (frames h df1)) t c))"
proof -
  let ?T = "frames h df1" and ?S = "frames h df2"
  let ?r = "if score lower u ?T t < score lower u ?S s then replaced u ?T ?S t s else t"
  note ret = call_returns [OF assms(1,3)]
  have in_rows: "?r \<in> set (per_match_rows lower u ?T ?S)"
    by (rule matched_in_rows [OF assms(4,5,6)])
  have cells: "\<forall>c\<in>set (columns ?T). cell_at (columns ?T) ?r c
      = (if score lower u ?T t < score lower u ?S s
            \<and> c \<in> set (columns ?S) \<and> c \<noteq> ip_col u \<and> c \<noteq> computer_name_col u
         then cell_at (columns ?S) s c else cell_at (columns ?T) t c)"
    using cell_at_replaced by auto
  have "\<exists>r\<in>set (per_match_rows lower u ?T ?S).
      \<forall>c\<in>set (columns ?T). cell_at (columns ?T) r c
        = (if score lower u ?T t < score lower u ?S s
              \<and> c \<in> set (columns ?S) \<and> c \<noteq> ip_col u \<and> c \<noteq> computer_name_col u
           then cell_at (columns ?S) s c else cell_at (columns ?T) t c)"
    using in_rows cells by blast
  then show ?thesis
    unfolding ret by simp
qed

lemma matched_pair_record_example:
  "fst (compare_and_update_dataframe str_lower example_updater 0 1
          (store_of example_target example_source_one)) = Inr 2
   \<and> rows (frames (snd (compare_and_update_dataframe str_lower example_updater 0 1
                          (store_of example_target example_source_one))) 2)
       = [[Str (ascii ''10.0.0.1''), Str (ascii ''PC-1''), Str word_ochen_vazhno, Str (ascii ''b'')]]"
  unfolding store_of_call [OF example_one_plain disjI1 [OF example_one_source_only]]
  by (simp add: vocabulary_defs example_defs)

section \<open>Several source records for one target record\<close>




section \<open>Shape of the result\<close>




section \<open>State of the caller's frames after a call\<close>

text \<open>
  Claim C4, as stated, fails. After a call that passes validation both inputs have a new
  last column \<open>priority\<close>, so neither equals its value before the call; and after a call
  that fails validation the result is the target object itself, at address 0, not a new
  instance.
\<close>

theorem input_mutation_counterexample:
  "fst (compare_and_update_dataframe str_lower example_updater 0 1
          (store_of example_target example_source_one)) = Inr 2
   \<and> columns (frames (snd (compare_and_update_dataframe str_lower example_updater 0 1
                            (store_of example_target example_source_one))) 0)
       = columns example_target @ [ascii ''priority'']
   \<and> columns (frames (snd (compare_and_update_dataframe str_lower example_updater 0 1
                            (store_of example_target example_source_one))) 1)
       = columns example_source_one @ [ascii ''priority'']
   \<and> frames (snd (compare_and_update_dataframe str_lower example_updater 0 1
                   (store_of example_target example_source_one))) 0
       \<noteq> frames (store_of example_target example_source_one) 0
   \<and> frames (snd (compare_and_update_dataframe str_lower example_updater 0 1
                   (store_of example_target example_source_one))) 1
       \<noteq> frames (store_of example_target example_source_one) 1
   \<and> fst (compare_and_update_dataframe str_lower example_updater 0 1
          (store_of example_target example_no_value)) = Inr 0"
proof -
  let ?h = "store_of example_target example_source_one"
  let ?g = "store_of example_target example_no_value"
  have f: "frames ?h 0 = example_target" "frames ?h 1 = example_source_one" "next_id ?h = 2"
    by (simp_all add: store_of_def)
  have pc: "plain_call example_updater (frames ?h 0) (frames ?h 1)"
    unfolding f by (rule example_one_plain)
  have a0: "frames (snd (compare_and_update_dataframe str_lower example_updater 0 1 ?h)) 0
      = scored str_lower example_updater example_target"
    using call_inputs [OF pc, of 0 str_lower] f by (simp add: after_scoring_def)
  have a1: "frames (snd (compare_and_update_dataframe str_lower example_updater 0 1 ?h)) 1
      = scored str_lower example_updater example_source_one"
    using call_inputs [OF pc, of 1 str_lower] f by (simp add: after_scoring_def)
  have nv: "\<not> list_all (\<lambda>col. col \<in> set (columns (frames ?g 0)) \<and> col \<in> set (columns (frames ?g 1)))
        [ip_col example_updater, computer_name_col example_updater, value_col example_updater]"
    by (simp add: store_of_def example_defs)
  have c0: "columns (scored str_lower example_updater example_target)
      \<noteq> columns example_target"
    by (simp add: scored_def)
  have c1: "columns (scored str_lower example_updater example_source_one)
      \<noteq> columns example_source_one"
    by (simp add: scored_def)
  have d0: "scored str_lower example_updater example_target \<noteq> example_target"
    using c0 by auto
  have d1: "scored str_lower example_updater example_source_one \<noteq> example_source_one"
    using c1 by auto
  have e: "columns (scored str_lower example_updater df) = columns df @ [ascii ''priority'']" for df
    by (simp add: scored_def priority_label_def)
  show ?thesis
    unfolding a0 a1 f validation_failure [OF nv] e
      store_of_call(1) [OF example_one_plain disjI1 [OF example_one_source_only]]
    using d0 d1 by simp
qed

text \<open>
  Claim C4, amended. For inputs held at addresses in use: when validation fails the
  store is unchanged and the result is the target object itself. On plain frames, each
  input ends with one more column, \<open>priority\<close>, holding the score of each of its records;
  removing that column gives back the input as it was; no other object in use changes;
  and the result, when the call returns, is at an address that was not in use, so it is a
  new instance, different from both inputs. Plain frames are those of \<open>plain_call\<close>:
  distinct labels, none of them \<open>priority\<close>, \<open>_merge\<close>, \<open>_left_indicator\<close>,
  \<open>_right_indicator\<close> or ending in \<open>_df2\<close>, two different key columns, and the key and
  value columns in both frames. Nothing is said here of a call that passes validation on
  other frames, such as a frame that already has a column \<open>priority\<close>.
\<close>

theorem inputs_after_call:
  assumes "df1 < next_id h" and "df2 < next_id h"
  shows "(\<not> list_all (\<lambda>col. col \<in> set (columns (frames h df1)) \<and> col \<in> set (columns (frames h df2)))
            [ip_col u, computer_name_col u, value_col u]
          \<longrightarrow> compare_and_update_dataframe lower u df1 df2 h = (Inr df1, h))
     \<and> (plain_call u (frames h df1) (frames h df2)
          \<longrightarrow> frames (snd (compare_and_update_dataframe lower u df1 df2 h)) df1
                = \<lparr>columns = columns (frames h df1) @ [priority_label],
                   rows = map (\<lambda>r. r @ [Num (score lower u (frames h df1) r)])
                            (rows (frames h df1))\<rparr>
            \<and> frames (snd (compare_and_update_dataframe lower u df1 df2 h)) df2
                = \<lparr>columns = columns (frames h df2) @ [priority_label],
                   rows = map (\<lambda>r. r @ [Num (score lower u (frames h df2) r)])
                            (rows (frames h df2))\<rparr>
            \<and> drop_columns (frames (snd (compare_and_update_dataframe lower u df1 df2 h)) df1)
                  [priority_label] = frames h df1
            \<and> drop_columns (frames (snd (compare_and_update_dataframe lower u df1 df2 h)) df2)
                  [priority_label] = frames h df2
            \<and> (\<forall>a. a < next_id h \<and> a \<noteq> df1 \<and> a \<noteq> df2
                  \<longrightarrow> frames (snd (compare_and_update_dataframe lower u df1 df2 h)) a
                      = frames h a)
            \<and> (\<forall>a. fst (compare_and_update_dataframe lower u df1 df2 h) = Inr a
                  \<longrightarrow> a = next_id h \<and> a \<noteq> df1 \<and> a \<noteq> df2))"
proof (intro conjI impI allI)
  assume "\<not> list_all (\<lambda>col. col \<in> set (columns (frames h df1)) \<and> col \<in> set (columns (frames h df2)))
            [ip_col u, computer_name_col u, value_col u]"
  then show "compare_and_update_dataframe lower u df1 df2 h = (Inr df1, h)"
    by (rule validation_failure)
next
  assume pc: "plain_call u (frames h df1) (frames h df2)"
  note c0 = plain_callD [OF pc]
  have i1: "frames (snd (compare_and_update_dataframe lower u df1 df2 h)) df1
      = scored lower u (frames h df1)"
    unfolding call_inputs [OF pc assms(1)] by (rule after_scoring_frames(2))
  have i2: "frames (snd (compare_and_update_dataframe lower u df1 df2 h)) df2
      = scored lower u (frames h df2)"
    unfolding call_inputs [OF pc assms(2)] by (rule after_scoring_frames(1))
  show "frames (snd (compare_and_update_dataframe lower u df1 df2 h)) df1
      = \<lparr>columns = columns (frames h df1) @ [priority_label],
         rows = map (\<lambda>r. r @ [Num (score lower u (frames h df1) r)]) (rows (frames h df1))\<rparr>"
    unfolding i1 scored_def ..
  show "frames (snd (compare_and_update_dataframe lower u df1 df2 h)) df2
      = \<lparr>columns = columns (frames h df2) @ [priority_label],
         rows = map (\<lambda>r. r @ [Num (score lower u (frames h df2) r)]) (rows (frames h df2))\<rparr>"
    unfolding i2 scored_def ..
  show "drop_columns (frames (snd (compare_and_update_dataframe lower u df1 df2 h)) df1)
      [priority_label] = frames h df1"
    unfolding i1 by (rule drop_scored [OF c0(1)])
  show "drop_columns (frames (snd (compare_and_update_dataframe lower u df1 df2 h)) df2)
      [priority_label] = frames h df2"
    unfolding i2 by (rule drop_scored [OF c0(2)])
  {
    fix a assume a: "a < next_id h \<and> a \<noteq> df1 \<and> a \<noteq> df2"
    show "frames (snd (compare_and_update_dataframe lower u df1 df2 h)) a = frames h a"
      using call_inputs [OF pc, of a lower] after_scoring_frames(4) [of a df1 df2 lower u h] a
      by simp
  }
  {
    fix a assume r: "fst (compare_and_update_dataframe lower u df1 df2 h) = Inr a"
    have n: "a = next_id h" by (rule call_result(1) [OF pc r])
    show "a = next_id h" by (rule n)
    show "a \<noteq> df1" using n assms(1) by simp
    show "a \<noteq> df2" using n assms(2) by simp
  }
qed

theorem inputs_after_call_witness:
  "compare_and_update_dataframe str_lower example_updater 0 1
       (store_of example_target example_no_value)
     = (Inr 0, store_of example_target example_no_value)
   \<and> drop_columns (frames (snd (compare_and_update_dataframe str_lower example_updater 0 1
                                  (store_of example_target example_source_one))) 0)
        [priority_label] = example_target
   \<and> drop_columns (frames (snd (compare_and_update_dataframe str_lower example_updater 0 1
                                  (store_of example_target example_source_one))) 1)
        [priority_label] = example_source_one
   \<and> fst (compare_and_update_dataframe str_lower example_updater 0 1
            (store_of example_target example_source_one)) = Inr 2"
proof -
  let ?g = "store_of example_target example_no_value"
  let ?h = "store_of example_target example_source_one"
  have f: "frames ?h 0 = example_target" "frames ?h 1 = example_source_one" "next_id ?h = 2"
    by (simp_all add: store_of_def)
  have n: "(0::nat) < next_id ?h" "(1::nat) < next_id ?h" by (simp_all add: store_of_def)
  have m: "(0::nat) < next_id ?g" "(1::nat) < next_id ?g" by (simp_all add: store_of_def)
  have nv: "\<not> list_all (\<lambda>col. col \<in> set (columns (frames ?g 0)) \<and> col \<in> set (columns (frames ?g 1)))
        [ip_col example_updater, computer_name_col example_updater, value_col example_updater]"
    by (simp add: store_of_def example_defs)
  have pc: "plain_call example_updater (frames ?h 0) (frames ?h 1)"
    unfolding f by (rule example_one_plain)
  have r: "fst (compare_and_update_dataframe str_lower example_updater 0 1 ?h) = Inr 2"
    by (rule store_of_call(1) [OF example_one_plain disjI1 [OF example_one_source_only]])
  from inputs_after_call [OF m, of example_updater str_lower] nv
  have 1: "compare_and_update_dataframe str_lower example_updater 0 1 ?g = (Inr 0, ?g)"
    by blast
  from inputs_after_call [OF n, of example_updater str_lower] pc
  have 2: "drop_columns (frames (snd (compare_and_update_dataframe str_lower example_updater 0 1 ?h)) 0)
        [priority_label] = frames ?h 0
     \<and> drop_columns (frames (snd (compare_and_update_dataframe str_lower example_updater 0 1 ?h)) 1)
        [priority_label] = frames ?h 1"
    by blast
  note 3 = 2 [unfolded f]
  show ?thesis
    by (intro conjI) (rule 1, rule conjunct1 [OF 3], rule conjunct2 [OF 3], rule r)
qed

section \<open>Schema validation\<close>

text \<open>
  Claim C5. When one of the two key columns or the value column is missing from the
  target or from the source, the method returns the target itself, leaves the store as it
  was (no partial processing) and raises nothing.
\<close>

theorem missing_column_returns_target:
  assumes "c \<in> {ip_col u, computer_name_col u, value_col u}"
    and "c \<notin> set (columns (frames h df1)) \<or> c \<notin> set (columns (frames h df2))"
  shows "compare_and_update_dataframe lower u df1 df2 h = (Inr df1, h)"
proof -
  have "\<not> list_all (\<lambda>col. col \<in> set (columns (frames h df1)) \<and> col \<in> set (columns (frames h df2)))
          [ip_col u, computer_name_col u, value_col u]"
    using assms by auto
  then show ?thesis
    unfolding compare_and_update_dataframe_def by simp
qed

theorem missing_column_returns_target_witness:
  "compare_and_update_dataframe str_lower example_updater 0 1
     (store_of example_target example_no_value)
   = (Inr 0, store_of example_target example_no_value)"
proof -
  have a: "value_col example_updater
      \<in> {ip_col example_updater, computer_name_col example_updater, value_col example_updater}"
    by simp
  have b: "value_col example_updater
      \<notin> set (columns (frames (store_of example_target example_no_value) 1))"
    by (simp add: example_updater_def store_of_def example_no_value_def ascii_def)
  show ?thesis
    by (rule missing_column_returns_target [OF a disjI2 [OF b]])
qed

section \<open>Priority scores\<close>

text \<open>
  Claim C6, as stated, fails: the source lower-cases the value and does not trim it. The
  value " vazhno" (the rank 5 category behind one space) scores 0, where the ranking of
  the lower-cased and trimmed string is 5.
\<close>

theorem untrimmed_value_counterexample:
  "get_priority str_lower example_updater (Str (32 # word_vazhno)) = 0
   \<and> trimmed_priority str_lower example_updater (Str (32 # word_vazhno)) = 5"
  by (simp add: get_priority_def trimmed_priority_def trim_def PRIORITY_MAP_def str_lower_def
      lower_cp_def example_updater_def word_vazhno_def)

text \<open>
  Claim C6, amended. The priority score of a value is the rank of the lower-cased text of
  the value, not trimmed; a value whose lower-cased text is not in the ranking scores 0.
  On plain frames held at addresses in use, the column \<open>priority\<close> that the method gives
  to the target and to the source holds that score of the value cell of every record. A
  missing value is scored through its text \<open>nan\<close>: under the default ranking it scores
  0, and every category of the default ranking has a rank of at least 1, so 0 is
  strictly below all of them.
\<close>

theorem priority_score:
  "get_priority lower u v
     = (case priority_map u (lower (py_str v)) of Some p \<Rightarrow> p | None \<Rightarrow> 0)
   \<and> (priority_map u (lower (py_str v)) = None \<longrightarrow> get_priority lower u v = 0)
   \<and> (plain_call u (frames h df1) (frames h df2) \<and> df1 < next_id h \<and> df2 < next_id h
        \<longrightarrow> rows (frames (snd (compare_and_update_dataframe lower u df1 df2 h)) df1)
              = map (\<lambda>r. r @ [Num (get_priority lower u
                                      (cell_at (columns (frames h df1)) r (value_col u)))])
                  (rows (frames h df1))
          \<and> rows (frames (snd (compare_and_update_dataframe lower u df1 df2 h)) df2)
              = map (\<lambda>r. r @ [Num (get_priority lower u
                                      (cell_at (columns (frames h df2)) r (value_col u)))])
                  (rows (frames h df2)))
   \<and> get_priority str_lower (u\<lparr>priority_map := PRIORITY_MAP\<rparr>) NaN = 0
   \<and> (\<forall>k p. PRIORITY_MAP k = Some p \<longrightarrow> 1 \<le> p)"
proof (intro conjI allI impI)
  show "get_priority lower u v
      = (case priority_map u (lower (py_str v)) of Some p \<Rightarrow> p | None \<Rightarrow> 0)"
    by (simp add: get_priority_def)
  show "get_priority lower u v = 0" if "priority_map u (lower (py_str v)) = None"
    using that by (simp add: get_priority_def)
  show "get_priority str_lower (u\<lparr>priority_map := PRIORITY_MAP\<rparr>) NaN = 0"
    by (simp add: get_priority_def PRIORITY_MAP_def str_lower_def lower_cp_def ascii_def)
  show "1 \<le> p" if "PRIORITY_MAP k = Some p" for k p
    using that by (auto simp: PRIORITY_MAP_def split: if_splits)
next
  assume a: "plain_call u (frames h df1) (frames h df2) \<and> df1 < next_id h \<and> df2 < next_id h"
  then have pc: "plain_call u (frames h df1) (frames h df2)"
    and n1: "df1 < next_id h" and n2: "df2 < next_id h" by simp_all
  show "rows (frames (snd (compare_and_update_dataframe lower u df1 df2 h)) df1)
      = map (\<lambda>r. r @ [Num (get_priority lower u
                              (cell_at (columns (frames h df1)) r (value_col u)))])
          (rows (frames h df1))"
    unfolding call_inputs [OF pc n1] after_scoring_frames(2)
    by (simp add: scored_def score_def)
  show "rows (frames (snd (compare_and_update_dataframe lower u df1 df2 h)) df2)
      = map (\<lambda>r. r @ [Num (get_priority lower u
                              (cell_at (columns (frames h df2)) r (value_col u)))])
          (rows (frames h df2))"
    unfolding call_inputs [OF pc n2] after_scoring_frames(1)
    by (simp add: scored_def score_def)
qed

theorem priority_score_witness:
  "priority_map example_updater (str_lower (py_str (Str (ascii ''unknown'')))) = None
   \<and> get_priority str_lower example_updater (Str (ascii ''unknown'')) = 0
   \<and> rows (frames (snd (compare_and_update_dataframe str_lower example_updater 0 1
                          (store_of example_target example_source_one))) 0)
       = [[Str (ascii ''10.0.0.1''), Str (ascii ''PC-1''), Str word_pusto, Str (ascii ''a''), Num 1]]
   \<and> rows (frames (snd (compare_and_update_dataframe str_lower example_updater 0 1
                          (store_of example_target example_source_one))) 1)
       = [[Str (ascii ''10.0.0.1''), Str (ascii ''PC-1''), Str word_ochen_vazhno, Str (ascii ''b''),
           Num 4]]
   \<and> PRIORITY_MAP word_pusto = Some 1 \<and> (1::int) \<le> 1"
proof -
  let ?h = "store_of example_target example_source_one"
  have f: "frames ?h 0 = example_target" "frames ?h 1 = example_source_one" "next_id ?h = 2"
    by (simp_all add: store_of_def)
  have n: "priority_map example_updater (str_lower (py_str (Str (ascii ''unknown'')))) = None"
    by (simp add: example_updater_def PRIORITY_MAP_def str_lower_def lower_cp_def ascii_def)
  have p: "PRIORITY_MAP word_pusto = Some 1"
    by (simp add: PRIORITY_MAP_def word_pusto_def)
  have pc: "plain_call example_updater (frames ?h 0) (frames ?h 1)
      \<and> 0 < next_id ?h \<and> 1 < next_id ?h"
    unfolding f using example_one_plain by simp
  have r0: "map (\<lambda>r. r @ [Num (get_priority str_lower example_updater
                              (cell_at (columns example_target) r (value_col example_updater)))])
          (rows example_target)
      = [[Str (ascii ''10.0.0.1''), Str (ascii ''PC-1''), Str word_pusto, Str (ascii ''a''), Num 1]]"
    by (simp add: vocabulary_defs example_defs)
  have r1: "map (\<lambda>r. r @ [Num (get_priority str_lower example_updater
                              (cell_at (columns example_source_one) r (value_col example_updater)))])
          (rows example_source_one)
      = [[Str (ascii ''10.0.0.1''), Str (ascii ''PC-1''), Str word_ochen_vazhno, Str (ascii ''b''),
          Num 4]]"
    by (simp add: vocabulary_defs example_defs)
  from priority_score [of str_lower example_updater "Str (ascii ''unknown'')" ?h 0 1] n p pc
  have "get_priority str_lower example_updater (Str (ascii ''unknown'')) = 0
     \<and> rows (frames (snd (compare_and_update_dataframe str_lower example_updater 0 1 ?h)) 0)
         = map (\<lambda>r. r @ [Num (get_priority str_lower example_updater
                  (cell_at (columns (frames ?h 0)) r (value_col example_updater)))])
             (rows (frames ?h 0))
     \<and> rows (frames (snd (compare_and_update_dataframe str_lower example_updater 0 1 ?h)) 1)
         = map (\<lambda>r. r @ [Num (get_priority str_lower example_updater
                  (cell_at (columns (frames ?h 1)) r (value_col example_updater)))])
             (rows (frames ?h 1))
     \<and> (1::int) \<le> 1"
    by blast
  then show ?thesis
    unfolding f r0 r1 using n p by blast
qed

section \<open>A source column that the target lacks\<close>

text \<open>
  Claim C7 fails on the code, by a slip in \<open>update_row\<close>. The target has the columns ip,
  name, value, x and one record of rank 1; the source has the columns ip, name, value, y
  and one record with the same key, of rank 5. The loop of \<open>update_row\<close> reaches the
  source column \<open>y\<close> and reads \<open>row['y_df2']\<close>; the merged row has the label \<open>y\<close> and no
  label \<open>y_df2\<close>, since \<open>pd.merge\<close> suffixes only the columns both frames have. The call
  raises \<open>KeyError\<close> and returns nothing.
\<close>

theorem source_only_column_raises:
  "fst (compare_and_update_dataframe str_lower example_updater 0 1
          (store_of example_target example_source_extra)) = Inl (KeyError (ascii ''y_df2''))"
proof -
  let ?h = "store_of example_target example_source_extra"
  have f: "frames ?h 0 = example_target" "frames ?h 1 = example_source_extra"
    by (simp_all add: store_of_def)
  have pc: "plain_call example_updater (frames ?h 0) (frames ?h 1)"
    unfolding f by (rule example_extra_plain)
  show ?thesis
    unfolding compare_and_update_plain [OF pc] f
    using example_extra_strict
    by (simp add: example_extra_source_only df2_suffix_def ascii_def)
qed

section \<open>Records without a match\<close>

text \<open>
  Claim C8 fails on the code, by the slip in \<open>update_row\<close> that claim C7 meets. The target
  has the columns ip, name, value, x and two records: the first, of key (10.0.0.2, PC-2),
  has the key of no source record; the second, of key (10.0.0.1, PC-1) and rank 1, has
  the key of the only source record, of rank 5. The source has the columns ip, name,
  value, y. The claim has the first record in the output as it was. The row update of the
  second record reads \<open>row['y_df2']\<close>, the call raises \<open>KeyError\<close> and there is no output,
  so the unmatched record is in none.
\<close>

theorem unmatched_record_lost:
  "rows example_target_pair
     = [[Str (ascii ''10.0.0.2''), Str (ascii ''PC-2''), Str word_sredne, Str (ascii ''c'')],
        [Str (ascii ''10.0.0.1''), Str (ascii ''PC-1''), Str word_pusto, Str (ascii ''a'')]]
   \<and> key_of example_updater example_target_pair (hd (rows example_target_pair))
     = [Str (ascii ''10.0.0.2''), Str (ascii ''PC-2'')]
   \<and> map (key_of example_updater example_source_extra) (rows example_source_extra)
     = [[Str (ascii ''10.0.0.1''), Str (ascii ''PC-1'')]]
   \<and> fst (compare_and_update_dataframe str_lower example_updater 0 1
          (store_of example_target_pair example_source_extra))
     = Inl (KeyError (ascii ''y_df2''))"
proof -
  let ?h = "store_of example_target_pair example_source_extra"
  have f: "frames ?h 0 = example_target_pair" "frames ?h 1 = example_source_extra"
    by (simp_all add: store_of_def)
  have pc: "plain_call example_updater (frames ?h 0) (frames ?h 1)"
    unfolding f by (rule example_pair_plain)
  have c: "fst (compare_and_update_dataframe str_lower example_updater 0 1 ?h)
      = Inl (KeyError (ascii ''y_df2''))"
    unfolding compare_and_update_plain [OF pc] f
    using example_pair_strict
    by (simp add: example_pair_source_only df2_suffix_def ascii_def)
  have r: "rows example_target_pair
     = [[Str (ascii ''10.0.0.2''), Str (ascii ''PC-2''), Str word_sredne, Str (ascii ''c'')],
        [Str (ascii ''10.0.0.1''), Str (ascii ''PC-1''), Str word_pusto, Str (ascii ''a'')]]"
    by (simp add: example_target_pair_def)
  have k: "key_of example_updater example_target_pair (hd (rows example_target_pair))
     = [Str (ascii ''10.0.0.2''), Str (ascii ''PC-2'')]"
    by (simp add: vocabulary_defs example_defs example_target_pair_def)
  have ks: "map (key_of example_updater example_source_extra) (rows example_source_extra)
     = [[Str (ascii ''10.0.0.1''), Str (ascii ''PC-1'')]]"
    by (simp add: vocabulary_defs example_defs example_source_extra_def)
  show ?thesis
    by (intro conjI) (rule r, rule k, rule ks, rule c)
qed

text \<open>
  Where that slip is out of reach an unmatched record passes through. On an exact call on
  plain frames, when the source has no column the target lacks or no match is strict, the
  call returns a frame with the columns of the target, and a target record whose key is
  the key of no source record is a record of it, with every cell as it was.
\<close>

lemma unmatched_record_kept:
  assumes "plain_call u (frames h df1) (frames h df2)"
    and "exact_call lower u (frames h df1) (frames h df2)"
    and "source_only u (frames h df1) (frames h df2) = []
         \<or> \<not> strict_match lower u (frames h df1) (frames h df2)"
    and "t \<in> set (rows (frames h df1))"
    and "\<forall>s\<in>set (rows (frames h df2)). key_of u (frames h df2) s \<noteq> key_of u (frames h df1) t"
  shows "fst (compare_and_update_dataframe lower u df1 df2 h) = Inr (next_id h)
     \<and> columns (frames (snd (compare_and_update_dataframe lower u df1 df2 h)) (next_id h))
         = columns (frames h df1)
     \<and> t \<in> set (rows (frames (snd (compare_and_update_dataframe lower u df1 df2 h))
                          (next_id h)))"
  unfolding call_returns [OF assms(1,3)]
  using unmatched_in_rows [OF assms(4,5)] by simp

lemma unmatched_record_kept_example:
  "fst (compare_and_update_dataframe str_lower example_updater 0 1
          (store_of example_target example_source_other)) = Inr 2
   \<and> rows (frames (snd (compare_and_update_dataframe str_lower example_updater 0 1
                          (store_of example_target example_source_other))) 2)
       = [[Str (ascii ''10.0.0.1''), Str (ascii ''PC-1''), Str word_pusto, Str (ascii ''a'')]]"
proof -
  have pc: "plain_call example_updater example_target example_source_other"
    by (simp add: vocabulary_defs example_defs example_source_other_def)
  have so: "source_only example_updater example_target example_source_other = []"
    by (simp add: vocabulary_defs example_defs example_source_other_def)
  show ?thesis
    unfolding store_of_call [OF pc disjI1 [OF so]]
    by (simp add: vocabulary_defs example_defs example_source_other_def)
qed

section \<open>A record set reconciled with itself\<close>

text \<open>
  Claim C9, as stated, fails. The record set has the required columns and two records
  with the same key, of rank 1 and 5. Reconciled with itself (the same object passed as
  target and as source) it gives four records, one per pair of records with that key, and
  the second one carries the cells of the rank 5 record.
\<close>

theorem self_reconcile_counterexample:
  "set [ip_col example_updater, computer_name_col example_updater, value_col example_updater]
     \<subseteq> set (columns example_duplicates)
   \<and> fst (compare_and_update_dataframe str_lower example_updater 0 0
          (store_of example_duplicates example_duplicates)) = Inr 2
   \<and> rows (frames (snd (compare_and_update_dataframe str_lower example_updater 0 0
                          (store_of example_duplicates example_duplicates))) 2)
       = [[Str (ascii ''10.0.0.1''), Str (ascii ''PC-1''), Str word_pusto, Str (ascii ''a'')],
          [Str (ascii ''10.0.0.1''), Str (ascii ''PC-1''), Str word_vazhno, Str (ascii ''b'')],
          [Str (ascii ''10.0.0.1''), Str (ascii ''PC-1''), Str word_vazhno, Str (ascii ''b'')],
          [Str (ascii ''10.0.0.1''), Str (ascii ''PC-1''), Str word_vazhno, Str (ascii ''b'')]]
   \<and> frames (snd (compare_and_update_dataframe str_lower example_updater 0 0
                   (store_of example_duplicates example_duplicates))) 2
       \<noteq> example_duplicates"
proof -
  let ?h = "store_of example_duplicates example_duplicates"
  have f: "frames ?h 0 = example_duplicates" "next_id ?h = 2"
    by (simp_all add: store_of_def)
  have v: "set [ip_col example_updater, computer_name_col example_updater, value_col example_updater]
     \<subseteq> set (columns example_duplicates)"
    by (simp add: example_defs example_duplicates_def)
  have pc: "plain_call example_updater (frames ?h 0) (frames ?h 0)"
    unfolding f by (simp add: vocabulary_defs example_defs example_duplicates_def)
  have so: "source_only example_updater (frames ?h 0) (frames ?h 0) = []
      \<or> \<not> strict_match str_lower example_updater (frames ?h 0) (frames ?h 0)"
    using source_only_self by blast
  have r: "per_match_rows str_lower example_updater example_duplicates example_duplicates
      = [[Str (ascii ''10.0.0.1''), Str (ascii ''PC-1''), Str word_pusto, Str (ascii ''a'')],
         [Str (ascii ''10.0.0.1''), Str (ascii ''PC-1''), Str word_vazhno, Str (ascii ''b'')],
         [Str (ascii ''10.0.0.1''), Str (ascii ''PC-1''), Str word_vazhno, Str (ascii ''b'')],
         [Str (ascii ''10.0.0.1''), Str (ascii ''PC-1''), Str word_vazhno, Str (ascii ''b'')]]"
    by (simp add: vocabulary_defs example_defs example_duplicates_def)
  have l: "length (rows example_duplicates) = 2"
    by (simp add: example_duplicates_def)
  have ne: "\<lparr>columns = columns example_duplicates,
       rows = per_match_rows str_lower example_updater example_duplicates example_duplicates\<rparr>
      \<noteq> example_duplicates"
  proof
    assume "\<lparr>columns = columns example_duplicates,
       rows = per_match_rows str_lower example_updater example_duplicates example_duplicates\<rparr>
      = example_duplicates"
    then have "length (rows \<lparr>columns = columns example_duplicates,
       rows = per_match_rows str_lower example_updater example_duplicates example_duplicates\<rparr>)
      = length (rows example_duplicates)" by simp
    then show False unfolding l by (simp add: r)
  qed
  note c = call_returns [OF pc so, unfolded f]
  show ?thesis
    unfolding c using ne v by (simp add: r)
qed

text \<open>
  Claim C9, amended. For a plain and exact record set in which no two records have the
  same key, reconciling it with itself (the same object passed twice, or two equal record
  sets) returns a new record set equal to it. A plain record set is one of \<open>plain_call\<close>:
  distinct labels, none of them \<open>priority\<close>, \<open>_merge\<close>, \<open>_left_indicator\<close>,
  \<open>_right_indicator\<close> or ending in \<open>_df2\<close>, two different key columns, and the key and
  value columns present. An exact one is one of \<open>exact_frame\<close>: every number cell between
  \<open>- 2 ^ 53\<close> and \<open>2 ^ 53\<close>. Nothing is said here of other record sets, such as one that
  a previous call left with a column \<open>priority\<close>.
\<close>

theorem self_reconcile:
  assumes "plain_call u (frames h df1) (frames h df2)"
    and "frames h df2 = frames h df1"
    and "distinct (map (key_of u (frames h df1)) (rows (frames h df1)))"
    and "exact_frame (frames h df1)"
  shows "fst (compare_and_update_dataframe lower u df1 df2 h) = Inr (next_id h)
     \<and> frames (snd (compare_and_update_dataframe lower u df1 df2 h)) (next_id h)
       = frames h df1"
proof -
  have so: "source_only u (frames h df1) (frames h df2) = []
      \<or> \<not> strict_match lower u (frames h df1) (frames h df2)"
    unfolding assms(2) using source_only_self by blast
  note r = call_returns [OF assms(1) so]
  show ?thesis
    unfolding r assms(2) per_match_rows_self [OF assms(3)] by simp
qed

theorem self_reconcile_witness:
  "fst (compare_and_update_dataframe str_lower example_updater 0 0
          (store_of example_target example_source_one)) = Inr 2
   \<and> frames (snd (compare_and_update_dataframe str_lower example_updater 0 0
                   (store_of example_target example_source_one))) 2
       = example_target"
proof -
  let ?h = "store_of example_target example_source_one"
  have f: "frames ?h 0 = example_target" "next_id ?h = 2"
    by (simp_all add: store_of_def)
  have pc: "plain_call example_updater (frames ?h 0) (frames ?h 0)"
    unfolding f by (simp add: vocabulary_defs example_defs)
  have d: "distinct (map (key_of example_updater (frames ?h 0)) (rows (frames ?h 0)))"
    unfolding f by (simp add: example_defs)
  have ex: "exact_frame (frames ?h 0)"
    unfolding f by (simp add: exact_frame_def example_defs)
  from self_reconcile [OF pc refl d ex, of str_lower]
  show ?thesis unfolding f .
qed

section \<open>The default ranking\<close>

text \<open>
  Claim C10. With the default ranking, the score of a value is 5, 4, 3, 2 or 1 when its
  lower-cased text is the first, second, third, fourth or fifth key of \<open>PRIORITY_MAP\<close>
  (\<open>word_vazhno\<close>, \<open>word_ochen_vazhno\<close>, \<open>word_sredne\<close>, \<open>word_ne_ochen\<close>, \<open>word_pusto\<close>), and 0
  for every other text. The first key outranks the second, also when written in capitals.
\<close>

theorem default_ranking:
  "get_priority lower (u\<lparr>priority_map := PRIORITY_MAP\<rparr>) v
     = (if lower (py_str v) = word_vazhno then 5
        else if lower (py_str v) = word_ochen_vazhno then 4
        else if lower (py_str v) = word_sredne then 3
        else if lower (py_str v) = word_ne_ochen then 2
        else if lower (py_str v) = word_pusto then 1
        else 0)
   \<and> get_priority str_lower (u\<lparr>priority_map := PRIORITY_MAP\<rparr>) (Str word_ochen_vazhno)
       < get_priority str_lower (u\<lparr>priority_map := PRIORITY_MAP\<rparr>) (Str word_vazhno)
   \<and> get_priority str_lower (u\<lparr>priority_map := PRIORITY_MAP\<rparr>)
        (Str [1042, 1040, 1046, 1053, 1054]) = 5"
  by (simp add: get_priority_def PRIORITY_MAP_def word_vazhno_def word_ochen_vazhno_def
      word_sredne_def word_ne_ochen_def word_pusto_def str_lower_def lower_cp_def)

end
